theory Spec2Isabelle
  imports Complex_Main
begin

section \<open>JavaScript numbers\<close>

text \<open>
  A JavaScript \<open>number\<close> is an IEEE 754 double. The model keeps the special values
  (the two infinities and NaN) and their arithmetic as ECMAScript defines it. In the timing
  model, in scrolling and in idle scanning, arithmetic on finite values is exact real
  arithmetic. In typed entry and in pointer movement every operation is rounded to the
  nearest double (\<open>fl\<close>, below), as the last bit decides properties there.
\<close>

datatype jsnum = Num real | PInf | NInf | NaN

fun js_mul :: "jsnum \<Rightarrow> jsnum \<Rightarrow> jsnum" where
  "js_mul NaN _ = NaN"
| "js_mul _ NaN = NaN"
| "js_mul (Num a) (Num b) = Num (a * b)"
| "js_mul (Num a) PInf = (if a = 0 then NaN else if 0 < a then PInf else NInf)"
| "js_mul (Num a) NInf = (if a = 0 then NaN else if 0 < a then NInf else PInf)"
| "js_mul PInf (Num b) = (if b = 0 then NaN else if 0 < b then PInf else NInf)"
| "js_mul NInf (Num b) = (if b = 0 then NaN else if 0 < b then NInf else PInf)"
| "js_mul PInf PInf = PInf"
| "js_mul PInf NInf = NInf"
| "js_mul NInf PInf = NInf"
| "js_mul NInf NInf = PInf"

fun js_add :: "jsnum \<Rightarrow> jsnum \<Rightarrow> jsnum" where
  "js_add NaN _ = NaN"
| "js_add _ NaN = NaN"
| "js_add (Num a) (Num b) = Num (a + b)"
| "js_add (Num a) PInf = PInf"
| "js_add (Num a) NInf = NInf"
| "js_add PInf (Num b) = PInf"
| "js_add NInf (Num b) = NInf"
| "js_add PInf PInf = PInf"
| "js_add PInf NInf = NaN"
| "js_add NInf PInf = NaN"
| "js_add NInf NInf = NInf"

text \<open>\<open>Math.log\<close>: minus infinity at zero, NaN below it.\<close>

fun js_log :: "jsnum \<Rightarrow> jsnum" where
  "js_log (Num x) = (if x < 0 then NaN else if x = 0 then NInf else Num (ln x))"
| "js_log PInf = PInf"
| "js_log NInf = NaN"
| "js_log NaN = NaN"

fun js_sqrt :: "jsnum \<Rightarrow> jsnum" where
  "js_sqrt (Num x) = (if x < 0 then NaN else Num (sqrt x))"
| "js_sqrt PInf = PInf"
| "js_sqrt NInf = NaN"
| "js_sqrt NaN = NaN"

fun js_cos :: "jsnum \<Rightarrow> jsnum" where
  "js_cos (Num x) = Num (cos x)"
| "js_cos _ = NaN"

text \<open>\<open>Math.round\<close> rounds to the nearest integer, halves upwards.\<close>

fun js_round :: "jsnum \<Rightarrow> jsnum" where
  "js_round (Num x) = Num (of_int \<lfloor>x + 1 / 2\<rfloor>)"
| "js_round v = v"

text \<open>\<open>Math.min\<close> and \<open>Math.max\<close> return NaN as soon as one argument is NaN.\<close>

fun js_min :: "jsnum \<Rightarrow> jsnum \<Rightarrow> jsnum" where
  "js_min NaN _ = NaN"
| "js_min _ NaN = NaN"
| "js_min NInf _ = NInf"
| "js_min _ NInf = NInf"
| "js_min PInf b = b"
| "js_min a PInf = a"
| "js_min (Num a) (Num b) = Num (min a b)"

fun js_max :: "jsnum \<Rightarrow> jsnum \<Rightarrow> jsnum" where
  "js_max NaN _ = NaN"
| "js_max _ NaN = NaN"
| "js_max PInf _ = PInf"
| "js_max _ PInf = PInf"
| "js_max NInf b = b"
| "js_max a NInf = a"
| "js_max (Num a) (Num b) = Num (max a b)"

text \<open>The remainder operator \<open>%\<close> on integers: the result has the sign of the dividend.\<close>

definition js_rem :: "int \<Rightarrow> int \<Rightarrow> int" where
  "js_rem a b = sgn a * (\<bar>a\<bar> mod \<bar>b\<bar>)"

text \<open>
  Reading an array at an index: \<open>undefined\<close> (here \<open>None\<close>) outside the array.
\<close>

definition js_index :: "'a list \<Rightarrow> int \<Rightarrow> 'a option" where
  "js_index xs i = (if 0 \<le> i \<and> i < int (length xs) then Some (xs ! nat i) else None)"

section \<open>ProfileCatalog (browser-profiles)\<close>

record Viewport =
  width :: nat
  height :: nat

record BrowserProfile =
  userAgent :: string
  viewport :: Viewport
  profileLocale :: string
  timezone :: string
  platform :: string
  webglVendor :: "string option"
  webglRenderer :: "string option"
  acceptLanguage :: string
  deviceScaleFactor :: real
  colorDepth :: nat
  hasTouch :: bool

definition browserProfiles :: "BrowserProfile list" where
  "browserProfiles = [
     \<lparr> userAgent = ''Mozilla/5.0 (Windows NT 10.0; Win64; x64) AppleWebKit/537.36 (KHTML, like Gecko) Chrome/136.0.7103.25 Safari/537.36'',
       viewport = \<lparr> width = 1920, height = 1080 \<rparr>,
       profileLocale = ''en-US'', timezone = ''America/New_York'', platform = ''Win32'',
       webglVendor = Some ''Google Inc. (Intel)'',
       webglRenderer = Some ''ANGLE (Intel, Intel(R) UHD Graphics Direct3D11 vs_5_0 ps_5_0, D3D11)'',
       acceptLanguage = ''en-US,en;q=0.9'', deviceScaleFactor = 1, colorDepth = 24,
       hasTouch = False \<rparr>,
     \<lparr> userAgent = ''Mozilla/5.0 (Windows NT 10.0; Win64; x64; rv:123.0) Gecko/20100101 Firefox/123.0'',
       viewport = \<lparr> width = 1680, height = 1050 \<rparr>,
       profileLocale = ''en-GB'', timezone = ''Europe/London'', platform = ''Win32'',
       webglVendor = Some ''Mozilla'', webglRenderer = Some ''Mozilla'',
       acceptLanguage = ''en-GB,en;q=0.9,de;q=0.8'', deviceScaleFactor = 1, colorDepth = 24,
       hasTouch = False \<rparr>,
     \<lparr> userAgent = ''Mozilla/5.0 (Macintosh; Intel Mac OS X 10_15_7) AppleWebKit/605.1.15 (KHTML, like Gecko) Version/17.0 Safari/605.1.15'',
       viewport = \<lparr> width = 2560, height = 1600 \<rparr>,
       profileLocale = ''fr-FR'', timezone = ''Europe/Paris'', platform = ''MacIntel'',
       webglVendor = Some ''Apple Inc.'', webglRenderer = Some ''Apple GPU'',
       acceptLanguage = ''fr-FR,fr;q=0.9,en-US;q=0.8,en;q=0.7'', deviceScaleFactor = 2,
       colorDepth = 30, hasTouch = False \<rparr>,
     \<lparr> userAgent = ''Mozilla/5.0 (iPad; CPU OS 17_4 like Mac OS X) AppleWebKit/605.1.15 (KHTML, like Gecko) Version/17.0 Mobile/15E148 Safari/604.1'',
       viewport = \<lparr> width = 1024, height = 1366 \<rparr>,
       profileLocale = ''it-IT'', timezone = ''Europe/Rome'', platform = ''iPad'',
       webglVendor = None, webglRenderer = None,
       acceptLanguage = ''it-IT,it;q=0.9,en-US;q=0.8,en;q=0.7'', deviceScaleFactor = 2,
       colorDepth = 24, hasTouch = True \<rparr>,
     \<lparr> userAgent = ''Mozilla/5.0 (Linux; Android 14; SM-G998B) AppleWebKit/537.36 (KHTML, like Gecko) Chrome/136.0.7103.25 Mobile Safari/537.36'',
       viewport = \<lparr> width = 412, height = 915 \<rparr>,
       profileLocale = ''de-DE'', timezone = ''Europe/Berlin'', platform = ''Linux armv8l'',
       webglVendor = Some ''Google Inc.'',
       webglRenderer = Some ''ANGLE (Samsung, Mali-G78 MP14, OpenGL ES 3.2 v1.r32p1.9604e17)'',
       acceptLanguage = ''de-DE,de;q=0.9,en;q=0.8'', deviceScaleFactor = 2.625, colorDepth = 24,
       hasTouch = True \<rparr> ]"

text \<open>
  \<open>getRandomProfile\<close>: the index is \<open>Math.floor(Math.random() * length)\<close>; the draw
  \<open>r\<close> of \<open>Math.random()\<close> is an argument of the model.
\<close>

definition getRandomProfile :: "real \<Rightarrow> BrowserProfile option" where
  "getRandomProfile r = js_index browserProfiles \<lfloor>r * real (length browserProfiles)\<rfloor>"

text \<open>\<open>getProfileByIndex\<close>: \<open>safeIndex = index % browserProfiles.length\<close>.\<close>

definition getProfileByIndex :: "int \<Rightarrow> BrowserProfile option" where
  "getProfileByIndex index =
     (let safeIndex = js_rem index (int (length browserProfiles))
      in js_index browserProfiles safeIndex)"

section \<open>TimingModel (humanDelay)\<close>

text \<open>
  The closure \<open>random\<close> of \<open>humanDelay\<close>, the Box-Muller transform
  \<open>Math.sqrt(-2.0 * Math.log(u1)) * Math.cos(2.0 * Math.PI * u2)\<close>. The two draws of
  \<open>Math.random()\<close>, each in \<open>[0, 1)\<close>, are arguments of the model.
\<close>

definition box_muller :: "real \<Rightarrow> real \<Rightarrow> jsnum" where
  "box_muller u1 u2 =
     js_mul (js_sqrt (js_mul (Num (- 2)) (js_log (Num u1))))
            (js_cos (js_mul (js_mul (Num 2) (Num pi)) (Num u2)))"

text \<open>
  The duration \<open>humanDelay\<close> hands to \<open>setTimeout\<close>. The parameters \<open>min\<close> and
  \<open>max\<close> of the source are called \<open>lo\<close> and \<open>hi\<close> here.
\<close>

definition humanDelay_ms :: "real \<Rightarrow> real \<Rightarrow> real \<Rightarrow> real \<Rightarrow> jsnum" where
  "humanDelay_ms lo hi u1 u2 =
     (let mean = (lo + hi) / 2;
          stdDev = (hi - lo) / 4;
          delay = js_round (js_add (js_mul (box_muller u1 u2) (Num stdDev)) (Num mean))
      in js_max (Num lo) (js_min (Num hi) delay))"

text \<open>
  Everything the simulated behaviours do to the page or to the clock is recorded as an
  event. Random draws come from a sequence \<open>rnd\<close>; a behaviour that starts at position
  \<open>k\<close> returns the position after its last draw.
\<close>

datatype key = CharKey nat | Backspace

datatype event =
    Sleep jsnum
  | MouseMove real real
  | ScrollBy real
  | ReadScrollHeight
  | Fill
  | TripleClick
  | KeyPress key
  | TypeText nat
  | ConsoleWarn

definition humanDelay :: "real \<Rightarrow> real \<Rightarrow> (nat \<Rightarrow> real) \<Rightarrow> nat \<Rightarrow> event list \<times> nat" where
  "humanDelay lo hi rnd k = ([Sleep (humanDelay_ms lo hi (rnd k) (rnd (k + 1)))], k + 2)"

section \<open>Rounding to double precision\<close>

text \<open>
  \<open>rne\<close> rounds a real to the nearest integer, a tie to the even neighbour. \<open>fl x\<close> is
  the double nearest to \<open>x\<close>: with \<open>binade x\<close> the exponent of \<open>x\<close>, the spacing
  of the doubles around \<open>x\<close> is \<open>ulp x\<close> (52 fraction bits), and \<open>x\<close> is rounded to
  a multiple of it. The exponent range is not bounded: overflow and subnormal numbers,
  which no value of the behaviours comes near, are not modelled.
\<close>

definition rne :: "real \<Rightarrow> int" where
  "rne y =
     (let f = \<lfloor>y\<rfloor>; d = y - of_int f
      in if d < 1 / 2 then f else if 1 / 2 < d then f + 1 else if even f then f else f + 1)"

definition binade :: "real \<Rightarrow> int" where
  "binade x = \<lfloor>log 2 \<bar>x\<bar>\<rfloor>"

definition ulp :: "real \<Rightarrow> real" where
  "ulp x = 2 powr (of_int (binade x) - 52)"

definition fl :: "real \<Rightarrow> real" where
  "fl x = (if x = 0 then 0 else of_int (rne (x / ulp x)) * ulp x)"

text \<open>\<open>Math.PI\<close> is the double nearest to \<open>pi\<close>, 884279719003555 / 2^48.\<close>

definition MathPI :: real where
  "MathPI = 884279719003555 / 281474976710656"

text \<open>
  \<open>Math.sin\<close> is left to the implementation by ECMAScript, apart from
  \<open>Math.sin(0) = 0\<close>. It is taken to return the double nearest to the sine of its
  argument.
\<close>

definition mathSin :: "real \<Rightarrow> real" where
  "mathSin x = fl (sin x)"

text \<open>The terms of the series of the inverse tangent, used to bound \<open>pi\<close>.\<close>

definition arctanTerm :: "real \<Rightarrow> nat \<Rightarrow> real" where
  "arctanTerm x i = (- 1) ^ i * (1 / real (i * 2 + 1) * x ^ (i * 2 + 1))"

section \<open>InputSimulator\<close>

text \<open>
  The page as the behaviours see it: \<open>page.viewportSize()\<close> is a size or \<open>null\<close>.
  The driver's primitives issued on a live page are taken to complete; each one is recorded
  as an event.
\<close>

record page =
  viewportSize :: "Viewport option"

datatype box = Box (box_x: real) (box_y: real) (box_width: real) (box_height: real)

text \<open>An exception value: an \<open>Error\<close> object with its message, or any other value.\<close>

type_synonym jsstring = "nat list"

datatype thrown = ErrorObject jsstring | TruthyValue nat | FalsyValue nat

subsection \<open>Typed entry (humanType)\<close>

text \<open>
  Characters are code points. \<open>\s\<close> of a JavaScript regular expression matches the
  white space and line terminator code points listed here.
\<close>

definition js_whitespace :: "nat \<Rightarrow> bool" where
  "js_whitespace c \<longleftrightarrow>
     c \<in> {9, 10, 11, 12, 13, 32, 160, 5760, 8232, 8233, 8239, 8287, 12288, 65279}
     \<or> (8192 \<le> c \<and> c \<le> 8202)"

text \<open>The test \<open>/[\s,.?!;:]/.test(char)\<close>.\<close>

definition pauseInducing :: "nat \<Rightarrow> bool" where
  "pauseInducing c \<longleftrightarrow> js_whitespace c \<or> c \<in> {44, 46, 63, 33, 59, 58}"

definition avgTypingSpeed :: "real \<Rightarrow> int" where
  "avgTypingSpeed r = \<lfloor>fl (r * 300)\<rfloor> + 200"

definition baseDelay :: "real \<Rightarrow> real" where
  "baseDelay r = fl (60000 / real_of_int (avgTypingSpeed r))"

definition typingFactor :: "nat \<Rightarrow> real" where
  "typingFactor c = (if pauseInducing c then 2 else 1)"

definition variation :: "real \<Rightarrow> real" where
  "variation r = fl (fl (r * 0.5) + 0.75)"

text \<open>
  The value \<open>baseDelay * factor * variation\<close> before \<open>Math.floor\<close>, each product
  rounded, and the per-character \<open>delay\<close> itself.
\<close>

definition rawCharDelay :: "real \<Rightarrow> nat \<Rightarrow> real \<Rightarrow> real" where
  "rawCharDelay base c r = fl (fl (base * typingFactor c) * variation r)"

definition charDelay :: "real \<Rightarrow> nat \<Rightarrow> real \<Rightarrow> real" where
  "charDelay base c r = real_of_int \<lfloor>rawCharDelay base c r\<rfloor>"

text \<open>
  What the driver does when \<open>humanType\<close> calls it: each primitive either completes
  (\<open>None\<close>) or throws.
\<close>

record typing_driver =
  fillThrows :: "thrown option"
  tripleClickThrows :: "thrown option"
  backspaceThrows :: "thrown option"
  pressThrows :: "nat \<Rightarrow> thrown option"
  typeThrows :: "nat \<Rightarrow> thrown option"

definition clearField :: "typing_driver \<Rightarrow> event list" where
  "clearField drv =
     (if fillThrows drv = None then [Fill]
      else if tripleClickThrows drv \<noteq> None then [ConsoleWarn]
      else if backspaceThrows drv \<noteq> None then [TripleClick, ConsoleWarn]
      else [TripleClick, KeyPress Backspace])"

fun typeLoop ::
  "typing_driver \<Rightarrow> real \<Rightarrow> (nat \<Rightarrow> real) \<Rightarrow> nat \<Rightarrow> nat list \<Rightarrow> (thrown + unit) \<times> event list \<times> nat"
where
  "typeLoop drv base rnd k [] = (Inr (), [], k)"
| "typeLoop drv base rnd k (c # cs) =
     (let delay = charDelay base c (rnd k) in
      case (if pressThrows drv c = None then Inr [KeyPress (CharKey c)]
            else case typeThrows drv c of None \<Rightarrow> Inr [TypeText c] | Some e \<Rightarrow> Inl e) of
        Inl e \<Rightarrow> (Inl e, [], k + 1)
      | Inr injected \<Rightarrow>
          (let (pause, k') = humanDelay delay (delay + 50) rnd (k + 1);
               (res, evs, k'') = typeLoop drv base rnd k' cs
           in (res, injected @ pause @ evs, k'')))"

definition humanType ::
  "typing_driver \<Rightarrow> nat list \<Rightarrow> (nat \<Rightarrow> real) \<Rightarrow> nat \<Rightarrow> (thrown + unit) \<times> event list \<times> nat"
where
  "humanType drv text rnd k =
     (let base = baseDelay (rnd k);
          cleared = clearField drv;
          (res, evs, k') = typeLoop drv base rnd (k + 1) text
      in case res of
           Inl e \<Rightarrow> (Inl e, cleared @ evs, k')
         | Inr _ \<Rightarrow>
             (let (pause, k'') = humanDelay 300 800 rnd k'
              in (Inr (), cleared @ evs @ pause, k'')))"

subsection \<open>Pointer movement (humanMouseMovement)\<close>

definition viewportOrDefault :: "page \<Rightarrow> Viewport" where
  "viewportOrDefault pg =
     (case viewportSize pg of None \<Rightarrow> \<lparr> width = 1024, height = 768 \<rparr> | Some v \<Rightarrow> v)"

definition mouseSteps :: "real \<Rightarrow> int" where
  "mouseSteps r = \<lfloor>fl (r * 5)\<rfloor> + 5"

definition stepProgress :: "int \<Rightarrow> int \<Rightarrow> real" where
  "stepProgress i steps = fl (real_of_int i / real_of_int steps)"

text \<open>\<open>Math.sin(progress * Math.PI)\<close>.\<close>

definition jitterFactor :: "real \<Rightarrow> real" where
  "jitterFactor progress = mathSin (fl (progress * MathPI))"

text \<open>\<open>(Math.random() - 0.5) * 20 * jitterFactor\<close>, for the draw \<open>r\<close>.\<close>

definition jitter :: "real \<Rightarrow> real \<Rightarrow> real" where
  "jitter r factor = fl (fl (fl (r - 0.5) * 20) * factor)"

function mouseLoop ::
  "real \<Rightarrow> real \<Rightarrow> real \<Rightarrow> real \<Rightarrow> int \<Rightarrow> (nat \<Rightarrow> real) \<Rightarrow> int \<Rightarrow> nat \<Rightarrow> event list \<times> nat"
where
  "mouseLoop startX startY targetX targetY steps rnd i k =
     (if i \<le> steps then
        (let progress = stepProgress i steps;
             moveX = fl (startX + fl (fl (targetX - startX) * progress));
             moveY = fl (startY + fl (fl (targetY - startY) * progress));
             jitterX = jitter (rnd k) (jitterFactor progress);
             jitterY = jitter (rnd (k + 1)) (jitterFactor progress);
             (pause, k') = humanDelay 20 50 rnd (k + 2);
             (evs, k'') = mouseLoop startX startY targetX targetY steps rnd (i + 1) k'
         in (MouseMove (fl (moveX + jitterX)) (fl (moveY + jitterY)) # pause @ evs, k''))
      else ([], k))"
  by pat_completeness auto
termination
  by (relation "measure (\<lambda>(startX, startY, targetX, targetY, steps, rnd, i, k). nat (steps + 1 - i))")
     auto

declare mouseLoop.simps [simp del]

text \<open>The argument \<open>bbox\<close> is the result of \<open>element.boundingBox()\<close>.\<close>

definition humanMouseMovement ::
  "page \<Rightarrow> box option \<Rightarrow> (nat \<Rightarrow> real) \<Rightarrow> nat \<Rightarrow> event list \<times> nat"
where
  "humanMouseMovement pg bbox rnd k =
     (case bbox of
        None \<Rightarrow> ([], k)
      | Some b \<Rightarrow>
          (let vp = viewportOrDefault pg;
               startX = fl (rnd k * real (width vp));
               startY = fl (rnd (k + 1) * real (height vp));
               targetX = fl (box_x b + fl (box_width b * fl (0.25 + fl (rnd (k + 2) * 0.5))));
               targetY = fl (box_y b + fl (box_height b * fl (0.25 + fl (rnd (k + 3) * 0.5))));
               steps = mouseSteps (rnd (k + 4))
           in mouseLoop startX startY targetX targetY steps rnd 0 (k + 5)))"

text \<open>
  The point of the \<open>i\<close>-th cursor move of a trajectory whose draws start at position
  \<open>k\<close>: every step uses four draws, two for the jitter and two for the pause.
\<close>

definition movePoint ::
  "real \<Rightarrow> real \<Rightarrow> real \<Rightarrow> real \<Rightarrow> int \<Rightarrow> (nat \<Rightarrow> real) \<Rightarrow> nat \<Rightarrow> int \<Rightarrow> real \<times> real"
where
  "movePoint startX startY targetX targetY steps rnd k i =
     (fl (fl (startX + fl (fl (targetX - startX) * stepProgress i steps))
          + jitter (rnd (k + 4 * nat i)) (jitterFactor (stepProgress i steps))),
      fl (fl (startY + fl (fl (targetY - startY) * stepProgress i steps))
          + jitter (rnd (k + 4 * nat i + 1)) (jitterFactor (stepProgress i steps))))"

subsection \<open>Idle scanning (randomMouseMovements)\<close>

text \<open>
  \<open>Date.now()\<close> is read once for \<open>startTime\<close> and once at every test of the loop
  condition: \<open>now 0\<close> is the first reading, \<open>now (j + 1)\<close> the reading at the test
  before iteration \<open>j\<close>. The loop has no bound of its own, so its result is optional:
  \<open>None\<close> stands for a run that never leaves the loop.
\<close>

partial_function (option) idleLoop ::
  "(nat \<Rightarrow> int) \<Rightarrow> real \<Rightarrow> real \<Rightarrow> real \<Rightarrow> (nat \<Rightarrow> real) \<Rightarrow> nat \<Rightarrow> nat \<Rightarrow> event list
   \<Rightarrow> (event list \<times> nat) option"
where
  "idleLoop now duration viewportWidth viewportHeight rnd j k acc =
     (if real_of_int (now (j + 1) - now 0) < duration then
        (let targetX = rnd k * viewportWidth;
             targetY = rnd (k + 1) * viewportHeight;
             speed = rnd (k + 2) * 50 + 50;
             pause = humanDelay speed (speed + 30) rnd (k + 3)
         in idleLoop now duration viewportWidth viewportHeight rnd (j + 1) (snd pause)
              (acc @ MouseMove targetX targetY # fst pause))
      else Some (acc, k))"



definition randomMouseMovements ::
  "page \<Rightarrow> real \<Rightarrow> (nat \<Rightarrow> int) \<Rightarrow> (nat \<Rightarrow> real) \<Rightarrow> nat \<Rightarrow> (event list \<times> nat) option"
where
  "randomMouseMovements pg duration now rnd k =
     (let vp = viewportOrDefault pg
      in idleLoop now duration (real (width vp)) (real (height vp)) rnd 0 k [])"

subsection \<open>Scrolling (humanScroll)\<close>










fun movesOf :: "event list \<Rightarrow> (real \<times> real) list" where
  "movesOf [] = []"
| "movesOf (MouseMove a b # evs) = (a, b) # movesOf evs"
| "movesOf (_ # evs) = movesOf evs"

fun sleepsOf :: "event list \<Rightarrow> jsnum list" where
  "sleepsOf [] = []"
| "sleepsOf (Sleep d # evs) = d # sleepsOf evs"
| "sleepsOf (_ # evs) = sleepsOf evs"

text \<open>The characters that reached the field, by key press or by text insertion.\<close>

fun typedOf :: "event list \<Rightarrow> nat list" where
  "typedOf [] = []"
| "typedOf (KeyPress (CharKey c) # evs) = c # typedOf evs"
| "typedOf (TypeText c # evs) = c # typedOf evs"
| "typedOf (_ # evs) = typedOf evs"

text \<open>
  The pause after the \<open>i\<close>-th character \<open>c\<close> of a text whose loop draws start at
  position \<open>k\<close>: every character uses three draws, the jitter and two for the pause.
\<close>

definition charPause :: "real \<Rightarrow> (nat \<Rightarrow> real) \<Rightarrow> nat \<Rightarrow> nat \<Rightarrow> nat \<Rightarrow> jsnum" where
  "charPause base rnd k i c =
     humanDelay_ms (charDelay base c (rnd (k + 3 * i))) (charDelay base c (rnd (k + 3 * i)) + 50)
       (rnd (k + 3 * i + 1)) (rnd (k + 3 * i + 2))"

section \<open>Session state and the browser driver\<close>

text \<open>
  The module's globals (\<open>globalBrowser\<close>, \<open>globalPage\<close>, \<open>lastSnapshot\<close>,
  \<open>currentProfileIndex\<close>) together with what the driver knows: the browsers launched and
  not yet closed, the next fresh object identity, and whether \<open>close()\<close> of a browser
  throws. Browsers, pages and snapshots are object identities.
\<close>

record world =
  globalBrowser :: "nat option"
  globalPage :: "nat option"
  lastSnapshot :: "nat option"
  currentProfileIndex :: int
  openBrowsers :: "nat set"
  nextHandle :: nat
  closeThrows :: "nat \<Rightarrow> thrown option"

text \<open>The state when the module has been loaded and no browser started.\<close>

definition initialWorld :: world where
  "initialWorld =
     \<lparr> globalBrowser = None, globalPage = None, lastSnapshot = None, currentProfileIndex = 0,
       openBrowsers = {}, nextHandle = 0, closeThrows = (\<lambda>b. None) \<rparr>"

subsection \<open>JavaScript strings\<close>

text \<open>A string is its list of code units; \<open>includes\<close> looks for a contiguous occurrence.\<close>

definition ascii :: "string \<Rightarrow> jsstring" where
  "ascii s = map of_char s"

fun startsWith :: "jsstring \<Rightarrow> jsstring \<Rightarrow> bool" where
  "startsWith s [] = True"
| "startsWith [] (p # ps) = False"
| "startsWith (c # s) (p # ps) = (c = p \<and> startsWith s ps)"

fun js_includes :: "jsstring \<Rightarrow> jsstring \<Rightarrow> bool" where
  "js_includes [] pat = (pat = [])"
| "js_includes (c # s) pat = (startsWith (c # s) pat \<or> js_includes s pat)"

text \<open>A natural number in decimal, as a template literal renders it.\<close>

function decimal :: "nat \<Rightarrow> jsstring" where
  "decimal n = (if n < 10 then [48 + n] else decimal (n div 10) @ [48 + n mod 10])"
  by pat_completeness auto
termination
  by (relation "measure id") auto

declare decimal.simps [simp del]

text \<open>The Cyrillic word of the time-out messages, U+0422 U+0430 U+0439 U+043C U+0430 U+0443 U+0442.\<close>

definition timeoutWord :: jsstring where
  "timeoutWord = [1058, 1072, 1081, 1084, 1072, 1091, 1090]"

text \<open>The message of the time-out rejection: the word, two more words, the budget and \<open>ms\<close>.\<close>

definition timeoutMessage :: "nat \<Rightarrow> jsstring" where
  "timeoutMessage timeoutMs =
     timeoutWord @ [32, 1079, 1072, 1087, 1088, 1086, 1089, 1072, 32,
                    1087, 1086, 1089, 1083, 1077, 32]
       @ decimal timeoutMs @ ascii ''ms''"

text \<open>The message of the error thrown when no attempt left an error behind.\<close>

definition allAttemptsFailed :: jsstring where
  "allAttemptsFailed =
     [1042, 1089, 1077, 32, 1087, 1086, 1087, 1099, 1090, 1082, 1080, 32,
      1074, 1099, 1087, 1086, 1083, 1085, 1077, 1085, 1080, 1103, 32,
      1079, 1072, 1087, 1088, 1086, 1089, 1072, 32,
      1085, 1077, 1091, 1076, 1072, 1095, 1085, 1099]"

text \<open>The message of the error thrown when a handle is missing after the launch.\<close>

definition creationFailed :: jsstring where
  "creationFailed =
     [1053, 1077, 32, 1091, 1076, 1072, 1083, 1086, 1089, 1100, 32,
      1089, 1086, 1079, 1076, 1072, 1090, 1100, 32,
      1073, 1088, 1072, 1091, 1079, 1077, 1088, 32, 1080, 1083, 1080, 32,
      1089, 1090, 1088, 1072, 1085, 1080, 1094, 1091]"

fun truthy :: "thrown \<Rightarrow> bool" where
  "truthy (ErrorObject m) = True"
| "truthy (TruthyValue v) = True"
| "truthy (FalsyValue v) = False"

section \<open>ExecutionGuard (safeExecute)\<close>

text \<open>
  One call of the guarded operation, seen from the race against the timer: it resolves,
  it rejects (or throws), or it is still pending when the timer fires. The operation may
  change the globals and the driver's state.
\<close>

datatype 'a outcome = Resolves 'a | Rejects thrown | TimesOut

datatype guard_event =
    Invoked
  | AttemptFailed int int thrown
  | CleanupStarted
  | BrowserClosed nat
  | CloseFailed nat thrown
  | Backoff int

text \<open>
  The test \<open>error instanceof Error && error.message.includes(..) || error instanceof Error &&
  error.message.includes('timed out')\<close>.
\<close>

fun isTimeoutError :: "thrown \<Rightarrow> bool" where
  "isTimeoutError (ErrorObject m) =
     (js_includes m timeoutWord \<or> js_includes m (ascii ''timed out''))"
| "isTimeoutError _ = False"

text \<open>
  The cleanup of the \<open>catch\<close> block: \<open>close()\<close> inside \<open>try\<close>, the two handles set to
  \<open>null\<close> after it, the snapshot reset after the \<open>try\<close>.
\<close>

definition timeoutCleanup :: "world \<Rightarrow> world \<times> guard_event list" where
  "timeoutCleanup w =
     (case globalBrowser w of
        None \<Rightarrow> (w\<lparr>lastSnapshot := None\<rparr>, [CleanupStarted])
      | Some b \<Rightarrow>
          (case closeThrows w b of
             None \<Rightarrow>
               (w\<lparr>openBrowsers := openBrowsers w - {b}, globalBrowser := None,
                   globalPage := None, lastSnapshot := None\<rparr>,
                [CleanupStarted, BrowserClosed b])
           | Some err \<Rightarrow> (w\<lparr>lastSnapshot := None\<rparr>, [CleanupStarted, CloseFailed b err])))"

definition onFailure :: "int \<Rightarrow> int \<Rightarrow> thrown \<Rightarrow> world \<Rightarrow> world \<times> guard_event list" where
  "onFailure attempt retries error w =
     (let (w', cleanup) = (if isTimeoutError error then timeoutCleanup w else (w, []));
          wait = (if attempt < retries - 1 then [Backoff (1000 * (attempt + 1))] else [])
      in (w', AttemptFailed (attempt + 1) retries error # cleanup @ wait))"

definition raceError :: "nat \<Rightarrow> 'a outcome \<Rightarrow> thrown" where
  "raceError timeoutMs out =
     (case out of Rejects e \<Rightarrow> e | _ \<Rightarrow> ErrorObject (timeoutMessage timeoutMs))"

text \<open>
  The value of \<open>lastError || new Error(..)\<close>, thrown after the loop: the last error when
  there is one and it is truthy, a new \<open>Error\<close> otherwise.
\<close>

definition exhaustedError :: "thrown option \<Rightarrow> thrown" where
  "exhaustedError lastError =
     (case lastError of
        None \<Rightarrow> ErrorObject allAttemptsFailed
      | Some e \<Rightarrow> if truthy e then e else ErrorObject allAttemptsFailed)"

function safeExecuteLoop ::
  "(world \<Rightarrow> 'a outcome \<times> world) \<Rightarrow> nat \<Rightarrow> int \<Rightarrow> int \<Rightarrow> thrown option \<Rightarrow> world
   \<Rightarrow> guard_event list \<Rightarrow> (thrown + 'a) \<times> world \<times> guard_event list"
where
  "safeExecuteLoop fn timeoutMs retries attempt lastError w trace =
     (if attempt < retries then
        (case fn w of
           (Resolves v, w1) \<Rightarrow> (Inr v, w1, trace @ [Invoked])
         | (out, w1) \<Rightarrow>
             (let error = raceError timeoutMs out;
                  (w2, evs) = onFailure attempt retries error w1
              in safeExecuteLoop fn timeoutMs retries (attempt + 1) (Some error) w2
                   (trace @ Invoked # evs)))
      else (Inl (exhaustedError lastError), w, trace))"
  by pat_completeness auto
termination
  by (relation "measure (\<lambda>(fn, timeoutMs, retries, attempt, lastError, w, trace). nat (retries - attempt))")
     auto

declare safeExecuteLoop.simps [simp del]

definition safeExecute ::
  "(world \<Rightarrow> 'a outcome \<times> world) \<Rightarrow> nat \<Rightarrow> int \<Rightarrow> world \<Rightarrow> (thrown + 'a) \<times> world \<times> guard_event list"
where
  "safeExecute fn timeoutMs retries w = safeExecuteLoop fn timeoutMs retries 0 None w []"

fun invocations :: "guard_event list \<Rightarrow> nat" where
  "invocations [] = 0"
| "invocations (Invoked # evs) = Suc (invocations evs)"
| "invocations (_ # evs) = invocations evs"

fun observedErrors :: "guard_event list \<Rightarrow> thrown list" where
  "observedErrors [] = []"
| "observedErrors (AttemptFailed a r e # evs) = e # observedErrors evs"
| "observedErrors (_ # evs) = observedErrors evs"

text \<open>
  A state with a session whose browser no longer answers: \<open>close()\<close> of any browser
  throws.
\<close>

definition wedgedWorld :: world where
  "wedgedWorld =
     \<lparr> globalBrowser = Some 0, globalPage = Some 1, lastSnapshot = Some 2,
       currentProfileIndex = 0, openBrowsers = {0}, nextHandle = 3,
       closeThrows = (\<lambda>b. Some (ErrorObject (ascii ''Target closed''))) \<rparr>"

section \<open>SessionManager (getOrCreateBrowserAndPage)\<close>

text \<open>
  What the driver does during one acquisition: each of its calls either completes
  (\<open>None\<close>) or throws.
\<close>

record launch_driver =
  launchThrows :: "thrown option"
  newPageThrows :: "thrown option"
  setViewportSizeThrows :: "thrown option"
  addInitScriptThrows :: "thrown option"
  setExtraHTTPHeadersThrows :: "thrown option"

text \<open>A property read on \<open>undefined\<close> throws a \<open>TypeError\<close>.\<close>

definition typeError :: thrown where
  "typeError = ErrorObject (ascii ''TypeError'')"

text \<open>The first exception of a sequence of driver calls, if any.\<close>

fun firstThrown :: "thrown option list \<Rightarrow> thrown option" where
  "firstThrown [] = None"
| "firstThrown (None # rest) = firstThrown rest"
| "firstThrown (Some e # rest) = Some e"

text \<open>
  \<open>getOrCreateBrowserAndPage\<close> in the order of the source: the profile is selected and
  the rotation index advanced; the existing browser, if any, is closed and the handles
  reset; a browser is launched, a page opened and configured, and the handles are checked.
  \<open>r\<close> is the draw of \<open>getRandomProfile\<close>.
\<close>

definition selectProfile :: "bool \<Rightarrow> real \<Rightarrow> world \<Rightarrow> BrowserProfile option \<times> world" where
  "selectProfile useRandomProfile r w =
     (let profile = (if useRandomProfile then getRandomProfile r
                     else getProfileByIndex (currentProfileIndex w))
      in if \<not> useRandomProfile
         then (profile, w\<lparr>currentProfileIndex := js_rem (currentProfileIndex w + 1) 5\<rparr>)
         else (profile, w))"

definition closeExisting :: "world \<Rightarrow> thrown + world" where
  "closeExisting w =
     (case globalBrowser w of
        None \<Rightarrow> Inr w
      | Some old \<Rightarrow>
          (case closeThrows w old of
             Some e \<Rightarrow> Inl e
           | None \<Rightarrow>
               Inr (w\<lparr>openBrowsers := openBrowsers w - {old},
                       globalBrowser := None, globalPage := None\<rparr>)))"

text \<open>
  The launch arguments read \<open>profile.userAgent\<close> first, which throws when the profile
  is \<open>undefined\<close>. The \<open>headless\<close> flag only reaches the launch options.
\<close>

definition launchSession ::
  "launch_driver \<Rightarrow> bool \<Rightarrow> BrowserProfile option \<Rightarrow> world \<Rightarrow> (thrown + nat \<times> nat) \<times> world"
where
  "launchSession drv headless profile w =
     (case profile of
        None \<Rightarrow> (Inl typeError, w)
      | Some prof \<Rightarrow>
          (case launchThrows drv of
             Some e \<Rightarrow> (Inl e, w)
           | None \<Rightarrow>
               (let b = nextHandle w;
                    w3 = w\<lparr>globalBrowser := Some b,
                           openBrowsers := insert b (openBrowsers w),
                           nextHandle := b + 1\<rparr>
                in case newPageThrows drv of
                     Some e \<Rightarrow> (Inl e, w3)
                   | None \<Rightarrow>
                       (let p = nextHandle w3;
                            w4 = w3\<lparr>globalPage := Some p, nextHandle := p + 1\<rparr>
                        in case firstThrown [setViewportSizeThrows drv,
                                             addInitScriptThrows drv,
                                             setExtraHTTPHeadersThrows drv] of
                             Some e \<Rightarrow> (Inl e, w4)
                           | None \<Rightarrow>
                               (case (globalBrowser w4, globalPage w4) of
                                  (Some gb, Some gp) \<Rightarrow> (Inr (gb, gp), w4)
                                | _ \<Rightarrow> (Inl (ErrorObject creationFailed), w4))))))"

definition getOrCreateBrowserAndPage ::
  "launch_driver \<Rightarrow> bool \<Rightarrow> bool \<Rightarrow> real \<Rightarrow> world \<Rightarrow> (thrown + nat \<times> nat) \<times> world"
where
  "getOrCreateBrowserAndPage drv headless useRandomProfile r w =
     (let (profile, w1) = selectProfile useRandomProfile r w
      in case closeExisting w1 of
           Inl e \<Rightarrow> (Inl e, w1)
         | Inr w2 \<Rightarrow> launchSession drv headless profile w2)"


section \<open>Properties of the rounding\<close>

lemma rne_of_int: "rne (of_int n) = n"
  by (simp add: rne_def)

lemma rne_cases:
  "rne y = \<lfloor>y\<rfloor> \<or> rne y = \<lfloor>y\<rfloor> + 1"
  by (simp add: rne_def Let_def)

lemma rne_error: "\<bar>of_int (rne y) - y\<bar> \<le> 1 / 2"
proof -
  have "of_int \<lfloor>y\<rfloor> \<le> y" "y < of_int \<lfloor>y\<rfloor> + 1" by linarith+
  then show ?thesis by (auto simp: rne_def Let_def)
qed

lemma rne_mono:
  assumes "y1 \<le> y2"
  shows "rne y1 \<le> rne y2"
proof (cases "\<lfloor>y1\<rfloor> = \<lfloor>y2\<rfloor>")
  case True
  then show ?thesis using assms by (auto simp: rne_def Let_def)
next
  case False
  then have "\<lfloor>y1\<rfloor> < \<lfloor>y2\<rfloor>" using assms floor_mono [of y1 y2] by linarith
  moreover have "rne y1 \<le> \<lfloor>y1\<rfloor> + 1" using rne_cases [of y1] by linarith
  moreover have "\<lfloor>y2\<rfloor> \<le> rne y2" using rne_cases [of y2] by linarith
  ultimately show ?thesis by linarith
qed

lemma rne_ge_int:
  assumes "of_int a \<le> y"
  shows "a \<le> rne y"
  using rne_mono [OF assms] by (simp add: rne_of_int)

lemma rne_le_int:
  assumes "y \<le> of_int b"
  shows "rne y \<le> b"
  using rne_mono [OF assms] by (simp add: rne_of_int)

lemma binade_eq:
  assumes "2 powr of_int e \<le> \<bar>x\<bar>" and "\<bar>x\<bar> < 2 powr (of_int e + 1)"
  shows "binade x = e"
proof -
  have "0 < \<bar>x\<bar>" using assms(1) powr_gt_zero [of 2 "of_int e"] by linarith
  then show ?thesis
    unfolding binade_def using assms by (simp add: floor_log_eq_powr_iff)
qed

lemma binade_bounds:
  assumes "x \<noteq> 0"
  shows "2 powr of_int (binade x) \<le> \<bar>x\<bar> \<and> \<bar>x\<bar> < 2 powr (of_int (binade x) + 1)"
proof -
  have "0 < \<bar>x\<bar>" using assms by simp
  then show ?thesis
    unfolding binade_def using floor_log_eq_powr_iff [of "\<bar>x\<bar>" 2 "\<lfloor>log 2 \<bar>x\<bar>\<rfloor>"] by simp
qed


lemma ulp_pos: "0 < ulp x"
  by (simp add: ulp_def)

lemma ulp_binade: "ulp x * 2 ^ 52 = 2 powr of_int (binade x)"
  by (simp add: ulp_def powr_diff)

lemma ulp_binade_next: "ulp x * 2 ^ 53 = 2 powr (of_int (binade x) + 1)"
  by (simp add: ulp_def powr_diff powr_add)

lemma scaled_bounds:
  assumes "x \<noteq> 0"
  shows "2 ^ 52 \<le> \<bar>x\<bar> / ulp x \<and> \<bar>x\<bar> / ulp x < 2 ^ 53"
proof -
  have "ulp x * 2 ^ 52 \<le> \<bar>x\<bar>" "\<bar>x\<bar> < ulp x * 2 ^ 53"
    using binade_bounds [OF assms] by (simp_all only: ulp_binade ulp_binade_next)
  then show ?thesis using ulp_pos [of x] by (simp add: field_simps)
qed

lemma fl_pos_bounds:
  assumes "0 < x"
  shows "2 powr of_int (binade x) \<le> fl x \<and> fl x \<le> 2 powr (of_int (binade x) + 1)"
proof -
  have x: "x \<noteq> 0" "\<bar>x\<bar> = x" using assms by simp_all
  have s: "of_int (2 ^ 52) \<le> x / ulp x" "x / ulp x \<le> of_int (2 ^ 53)"
    using scaled_bounds [OF x(1)] unfolding x(2) by simp_all
  have "2 ^ 52 \<le> rne (x / ulp x)" "rne (x / ulp x) \<le> 2 ^ 53"
    using rne_ge_int [OF s(1)] rne_le_int [OF s(2)] by simp_all
  then have "of_int (2 ^ 52) \<le> (of_int (rne (x / ulp x)) :: real)"
    "(of_int (rne (x / ulp x)) :: real) \<le> of_int (2 ^ 53)"
    by (simp_all only: of_int_le_iff)
  then have "2 ^ 52 * ulp x \<le> fl x" "fl x \<le> 2 ^ 53 * ulp x"
    using ulp_pos [of x] x(1) by (simp_all add: fl_def)
  then show ?thesis
    using ulp_binade [of x] ulp_binade_next [of x] by (simp add: mult.commute)
qed

lemma fl_pos: "0 < x \<Longrightarrow> 0 < fl x"
  using fl_pos_bounds [of x] powr_gt_zero [of 2 "of_int (binade x)"] by linarith

lemma binade_mono:
  assumes "0 < x" and "x \<le> y"
  shows "binade x \<le> binade y"
  unfolding binade_def using assms by (intro floor_mono) (simp add: log_le_cancel_iff)

lemma fl_mono_pos:
  assumes "0 < x" and "x \<le> y"
  shows "fl x \<le> fl y"
proof (cases "binade x = binade y")
  case True
  then have u: "ulp x = ulp y" by (simp add: ulp_def)
  have "x / ulp y \<le> y / ulp y" using assms(2) ulp_pos [of y] by (simp add: divide_right_mono)
  then have "rne (x / ulp y) \<le> rne (y / ulp y)" by (rule rne_mono)
  then have "of_int (rne (x / ulp y)) * ulp y \<le> of_int (rne (y / ulp y)) * ulp y"
    using ulp_pos [of y] by (simp add: mult_right_mono)
  then show ?thesis using assms u by (simp add: fl_def)
next
  case False
  then have "binade x + 1 \<le> binade y" using binade_mono [OF assms] by simp
  then have "real_of_int (binade x) + 1 \<le> real_of_int (binade y)" by linarith
  then have "(2::real) powr (of_int (binade x) + 1) \<le> 2 powr of_int (binade y)"
    by (simp only: powr_le_cancel_iff one_less_numeral_iff semiring_norm)
  moreover have "fl x \<le> 2 powr (of_int (binade x) + 1)" using fl_pos_bounds [OF assms(1)] by simp
  moreover have "0 < y" using assms by simp
  then have "2 powr of_int (binade y) \<le> fl y" using fl_pos_bounds by simp
  ultimately show ?thesis by linarith
qed

lemma fl_mono_nonneg:
  assumes "0 \<le> x" and "x \<le> y"
  shows "fl x \<le> fl y"
proof (cases "x = 0")
  case True
  then show ?thesis using assms fl_pos [of y] by (cases "y = 0") (simp_all add: fl_def less_eq_real_def)
next
  case False
  then show ?thesis using assms by (simp add: fl_mono_pos)
qed

lemma fl_error:
  assumes "0 < x"
  shows "\<bar>fl x - x\<bar> \<le> x / 2 ^ 53"
proof -
  have x: "x \<noteq> 0" "\<bar>x\<bar> = x" using assms by simp_all
  have "fl x - x = (of_int (rne (x / ulp x)) - x / ulp x) * ulp x"
    using ulp_pos [of x] x(1) by (simp add: fl_def field_simps)
  then have "\<bar>fl x - x\<bar> = \<bar>of_int (rne (x / ulp x)) - x / ulp x\<bar> * ulp x"
    using ulp_pos [of x] by (simp add: abs_mult)
  also have "\<dots> \<le> 1 / 2 * ulp x"
    using rne_error [of "x / ulp x"] ulp_pos [of x] by (intro mult_right_mono) simp_all
  also have "ulp x * 2 ^ 52 \<le> x" using scaled_bounds [OF x(1)] ulp_pos [of x] x(2)
    by (simp add: field_simps)
  then have "1 / 2 * ulp x \<le> x / 2 ^ 53" by simp
  finally show ?thesis .
qed

lemma fl_twice:
  "fl (2 * x) = 2 * fl x"
proof (cases "x = 0")
  case True
  then show ?thesis by (simp add: fl_def)
next
  case False
  have b: "2 powr of_int (binade x) \<le> \<bar>x\<bar>" "\<bar>x\<bar> < 2 powr (of_int (binade x) + 1)"
    using binade_bounds [OF False] by simp_all
  have "binade (2 * x) = binade x + 1"
  proof (rule binade_eq)
    show "2 powr of_int (binade x + 1) \<le> \<bar>2 * x\<bar>"
      using b(1) by (simp add: powr_add abs_mult)
    show "\<bar>2 * x\<bar> < 2 powr (of_int (binade x + 1) + 1)"
      using b(2) by (simp add: powr_add abs_mult)
  qed
  then have "ulp (2 * x) = 2 * ulp x" by (simp add: ulp_def powr_add powr_diff)
  then show ?thesis using False ulp_pos [of x] by (simp add: fl_def)
qed


lemma fl_neg:
  assumes "x < 0"
  shows "fl x < 0"
proof -
  have x: "x \<noteq> 0" "\<bar>x\<bar> = - x" using assms by simp_all
  have "2 ^ 52 \<le> - x / ulp x" using scaled_bounds [OF x(1)] unfolding x(2) by simp
  then have "x / ulp x \<le> of_int (- (2 ^ 52))" by simp
  then have "rne (x / ulp x) \<le> - (2 ^ 52)" by (rule rne_le_int)
  then have "rne (x / ulp x) < 0" by simp
  then have "(of_int (rne (x / ulp x)) :: real) < 0" by simp
  then show ?thesis using ulp_pos [of x] x(1) by (simp add: fl_def mult_neg_pos)
qed

lemma fl_zero: "fl 0 = 0"
  by (simp add: fl_def)

lemma fl_eval:
  assumes "2 ^ 52 \<le> \<bar>x\<bar> * 2 ^ n" and "\<bar>x\<bar> * 2 ^ n < 2 ^ 53"
  shows "fl x = of_int (rne (x * 2 ^ n)) / 2 ^ n"
proof -
  have x: "x \<noteq> 0" using assms(1) by auto
  have p: "(2::real) powr of_int (52 - int n) = 2 ^ 52 / 2 ^ n"
    by (simp add: powr_diff powr_realpow)
  have "binade x = 52 - int n"
  proof (rule binade_eq)
    show "2 powr of_int (52 - int n) \<le> \<bar>x\<bar>"
      unfolding p using assms(1) by (simp add: field_simps)
    have "(2::real) powr (of_int (52 - int n) + 1) = 2 powr of_int (52 - int n) * 2"
      by (simp only: powr_add) simp
    then have q: "(2::real) powr (of_int (52 - int n) + 1) = 2 ^ 53 / 2 ^ n"
      unfolding p by simp
    show "\<bar>x\<bar> < 2 powr (of_int (52 - int n) + 1)"
      unfolding q using assms(2) by (simp add: field_simps)
  qed
  then have "of_int (binade x) - 52 = - real n" by simp
  then have "ulp x = 2 powr (- real n)" by (simp only: ulp_def)
  then have "ulp x = 1 / 2 ^ n" by (simp add: powr_minus powr_realpow field_simps)
  then show ?thesis using x by (simp add: fl_def)
qed

lemma fl_dyadic:
  assumes "x = of_int m / 2 ^ n" and "\<bar>m\<bar> < 2 ^ 53"
  shows "fl x = x"
proof (cases "x = 0")
  case True
  then show ?thesis by (simp add: fl_def)
next
  case False
  have "\<bar>x\<bar> * 2 ^ n = \<bar>of_int m\<bar>" unfolding assms(1) by (simp add: abs_divide)
  also have "\<dots> < 2 ^ 53"
  proof -
    have "real_of_int \<bar>m\<bar> < real_of_int (2 ^ 53)" using assms(2) by (simp only: of_int_less_iff)
    then show ?thesis by simp
  qed
  finally have "\<bar>x\<bar> < 2 ^ 53 / 2 ^ n" by (simp add: field_simps)
  also have "\<dots> = 2 powr (53 - real n)" by (simp add: powr_diff powr_realpow)
  finally have lt: "\<bar>x\<bar> < 2 powr (53 - real n)" .
  have "2 powr of_int (binade x) \<le> \<bar>x\<bar>" using binade_bounds [OF False] by simp
  with lt have "2 powr of_int (binade x) < 2 powr (53 - real n)" by linarith
  then have "of_int (binade x) < 53 - real n" by (simp only: powr_less_cancel_iff one_less_numeral_iff semiring_norm)
  then have "binade x < 53 - int n" by linarith
  then have k: "int (nat (52 - int n - binade x)) = 52 - int n - binade x" by simp
  define k where "k = nat (52 - int n - binade x)"
  note k = k [folded k_def]
  have "of_int (binade x) - 52 = - real (n + k)" using k by simp
  then have "ulp x = 2 powr (- real (n + k))" by (simp only: ulp_def)
  also have "\<dots> = inverse (2 ^ (n + k))"
    by (simp only: powr_minus powr_realpow zero_less_numeral)
  finally have u: "ulp x = 1 / (2 ^ n * 2 ^ k)"
    by (simp add: power_add field_simps)
  have "x / ulp x = x * (2 ^ n * 2 ^ k)" by (simp add: u)
  also have "\<dots> = of_int (m * 2 ^ k)" by (simp add: assms(1))
  finally have "rne (x / ulp x) = m * 2 ^ k" by (simp only: rne_of_int)
  then have "fl x = of_int (m * 2 ^ k) * (1 / (2 ^ n * 2 ^ k))"
    using False by (simp only: fl_def u if_False)
  also have "\<dots> = x" by (simp add: assms(1))
  finally show ?thesis .
qed

text \<open>
  \<open>Math.PI\<close> lies below \<open>pi\<close>: Machin's formula and twelve terms of the series of
  the inverse tangent at 1/5, three at 1/239, bound \<open>pi\<close> from below closely enough.
\<close>

lemma arctan_partial_sums:
  assumes "0 < x" and "x \<le> 1"
  shows "(\<Sum>i<2 * n. arctanTerm x i) \<le> arctan x"
    and "arctan x \<le> (\<Sum>i<2 * n + 1. arctanTerm x i)"
proof -
  let ?a = "\<lambda>n. 1 / real (n * 2 + 1) * x ^ (n * 2 + 1)"
  have ax: "\<bar>x\<bar> \<le> 1" using assms by simp
  have "0 < ?a 0" using assms by simp
  with summable_Leibniz(2) [OF zeroseq_arctan_series [OF ax] monoseq_arctan_series [OF ax]]
  have "(\<Sum>i. (- 1) ^ i * ?a i) \<in> {\<Sum>i<2 * n. (- 1) ^ i * ?a i .. \<Sum>i<2 * n + 1. (- 1) ^ i * ?a i}"
    by blast
  then show "(\<Sum>i<2 * n. arctanTerm x i) \<le> arctan x"
    and "arctan x \<le> (\<Sum>i<2 * n + 1. arctanTerm x i)"
    unfolding arctan_series [OF ax] arctanTerm_def by simp_all
qed

lemma sum12: "(\<Sum>i<12::nat. f i) = f 0 + f 1 + f 2 + f 3 + f 4 + f 5 + f 6 + f 7 + f 8 + f 9 + f 10 + (f 11 :: real)"
  by (simp add: eval_nat_numeral)

lemma sum3: "(\<Sum>i<3::nat. f i) = f 0 + f 1 + (f 2 :: real)"
  by (simp add: eval_nat_numeral)

lemma MathPI_less_pi: "MathPI < pi"
proof -
  have lo: "(\<Sum>i<12. arctanTerm (1 / 5) i) \<le> arctan (1 / 5)"
    using arctan_partial_sums(1) [of "1 / 5" 6] by simp
  have hi: "arctan (1 / 239) \<le> (\<Sum>i<3. arctanTerm (1 / 239) i)"
    using arctan_partial_sums(2) [of "1 / 239" 1] by simp
  have "pi = 16 * arctan (1 / 5) - 4 * arctan (1 / 239)" using machin by simp
  then have "16 * (\<Sum>i<12. arctanTerm (1 / 5) i) - 4 * (\<Sum>i<3. arctanTerm (1 / 239) i) \<le> pi"
    using lo hi by linarith
  moreover have "MathPI < 16 * (\<Sum>i<12. arctanTerm (1 / 5) i) - 4 * (\<Sum>i<3. arctanTerm (1 / 239) i)"
    unfolding sum12 sum3 by (simp add: arctanTerm_def MathPI_def power_divide)
  ultimately show ?thesis by linarith
qed

lemma sin_MathPI_pos: "0 < sin MathPI"
proof -
  have "0 < MathPI" by (simp add: MathPI_def)
  then show ?thesis using MathPI_less_pi by (rule sin_gt_zero)
qed

text \<open>
  It also lies within \<open>2 ^ - 52\<close> of \<open>pi\<close>, from one more term of each series. So the
  sine of \<open>Math.PI\<close> is a positive double of at most \<open>2 ^ - 52\<close>, and the sine of half of
  \<open>Math.PI\<close> rounds to 1, the largest value the rounded sine takes.
\<close>

lemma sum13: "(\<Sum>i<13::nat. f i) = f 0 + f 1 + f 2 + f 3 + f 4 + f 5 + f 6 + f 7 + f 8 + f 9 + f 10 + f 11 + (f 12 :: real)"
  by (simp add: eval_nat_numeral)

lemma sum4: "(\<Sum>i<4::nat. f i) = f 0 + f 1 + f 2 + (f 3 :: real)"
  by (simp add: eval_nat_numeral)

lemma pi_less_MathPI_ulp: "pi < MathPI + 1 / 2 ^ 52"
proof -
  have hi: "arctan (1 / 5) \<le> (\<Sum>i<13. arctanTerm (1 / 5) i)"
    using arctan_partial_sums(2) [of "1 / 5" 6] by simp
  have lo: "(\<Sum>i<4. arctanTerm (1 / 239) i) \<le> arctan (1 / 239)"
    using arctan_partial_sums(1) [of "1 / 239" 2] by simp
  have "pi = 16 * arctan (1 / 5) - 4 * arctan (1 / 239)" using machin by simp
  then have "pi \<le> 16 * (\<Sum>i<13. arctanTerm (1 / 5) i) - 4 * (\<Sum>i<4. arctanTerm (1 / 239) i)"
    using lo hi by linarith
  moreover have "16 * (\<Sum>i<13. arctanTerm (1 / 5) i) - 4 * (\<Sum>i<4. arctanTerm (1 / 239) i)
      < MathPI + 1 / 2 ^ 52"
    unfolding sum13 sum4 by (simp add: arctanTerm_def MathPI_def power_divide)
  ultimately show ?thesis by linarith
qed

lemma sin_MathPI_le: "sin MathPI \<le> 1 / 2 ^ 52"
proof -
  have "sin MathPI = sin (pi - MathPI)" by simp
  also have "\<dots> \<le> pi - MathPI" using MathPI_less_pi by (intro sin_x_le_x) simp
  finally show ?thesis using pi_less_MathPI_ulp by linarith
qed

lemma fl_one: "fl 1 = 1"
  using fl_dyadic [of 1 1 0] by simp

lemma fl_MathPI: "fl MathPI = MathPI" "fl (MathPI / 2) = MathPI / 2"
  using fl_dyadic [of MathPI 884279719003555 48] fl_dyadic [of "MathPI / 2" 884279719003555 49]
  by (simp_all add: MathPI_def)

lemma mathSin_MathPI: "0 < mathSin MathPI \<and> mathSin MathPI \<le> 1 / 2 ^ 52"
proof -
  have "fl (sin MathPI) \<le> fl (1 / 2 ^ 52)"
    using sin_MathPI_pos sin_MathPI_le by (intro fl_mono_nonneg) simp_all
  moreover have "fl (1 / 2 ^ 52) = 1 / 2 ^ 52" using fl_dyadic [of "1 / 2 ^ 52" 1 52] by simp
  ultimately show ?thesis using fl_pos [OF sin_MathPI_pos] by (simp add: mathSin_def)
qed

lemma mathSin_le_one: "mathSin x \<le> 1"
proof (cases "0 \<le> sin x")
  case True
  then have "fl (sin x) \<le> fl 1" by (intro fl_mono_nonneg) simp_all
  then show ?thesis by (simp add: mathSin_def fl_one)
next
  case False
  then have "fl (sin x) < 0" by (intro fl_neg) simp
  then show ?thesis by (simp add: mathSin_def)
qed

lemma mathSin_half_MathPI: "mathSin (MathPI / 2) = 1"
proof -
  define y where "y = (pi - MathPI) / 2"
  have y: "0 < y" "y \<le> 1 / 2 ^ 53"
    using MathPI_less_pi pi_less_MathPI_ulp by (simp_all add: y_def)
  have "sin (MathPI / 2) = cos (pi / 2 - MathPI / 2)" by (simp only: cos_sin_eq) simp
  also have "pi / 2 - MathPI / 2 = 2 * (y / 2)" by (simp add: y_def field_simps)
  also have "cos (2 * (y / 2)) = 1 - 2 * (sin (y / 2))\<^sup>2" by (rule cos_double_sin)
  finally have c: "sin (MathPI / 2) = 1 - 2 * (sin (y / 2))\<^sup>2" .
  have "(1::real) / 2 ^ 53 \<le> 1" by simp
  then have "y / 2 \<le> pi" using y pi_ge_two by linarith
  then have "0 \<le> sin (y / 2)" using y(1) by (intro sin_ge_zero) simp_all
  moreover have "sin (y / 2) \<le> y / 2" using y(1) by (intro sin_x_le_x) simp
  ultimately have "(sin (y / 2))\<^sup>2 \<le> (y / 2)\<^sup>2" by (intro power_mono) simp_all
  also have "\<dots> \<le> (1 / 2 ^ 54)\<^sup>2" using y by (intro power_mono) simp_all
  finally have s: "(sin (y / 2))\<^sup>2 \<le> 1 / 2 ^ 108" by (simp add: power_divide)
  have lo: "1 - 1 / 2 ^ 55 \<le> sin (MathPI / 2)" using s unfolding c by simp
  have low: "fl (1 - 1 / 2 ^ 55) = 1"
    by (subst fl_eval [where n = 53]) (simp_all add: rne_def)
  have "fl (1 - 1 / 2 ^ 55) \<le> fl (sin (MathPI / 2))" using lo by (intro fl_mono_nonneg) simp_all
  moreover have "fl (sin (MathPI / 2)) \<le> 1" using mathSin_le_one [of "MathPI / 2"] by (simp add: mathSin_def)
  ultimately show ?thesis unfolding low by (simp add: mathSin_def)
qed

text \<open>Rounding is odd and monotone on the whole line.\<close>

lemma rne_minus: "rne (- y) = - rne y"
proof (cases "y = of_int \<lfloor>y\<rfloor>")
  case True
  then obtain n where n: "y = of_int n" ..
  have "rne (- y) = rne (of_int (- n))" by (simp add: n)
  also have "\<dots> = - n" by (simp only: rne_of_int)
  finally show ?thesis by (simp add: n rne_of_int)
next
  case False
  then have "y \<notin> \<int>" by (metis Ints_cases of_int_floor_cancel)
  then have f: "\<lfloor>- y\<rfloor> = - \<lfloor>y\<rfloor> - 1" by (simp add: floor_minus ceiling_altdef False)
  have d: "- y - of_int (- \<lfloor>y\<rfloor> - 1) = 1 - (y - of_int \<lfloor>y\<rfloor>)" by simp
  show ?thesis unfolding rne_def Let_def f d by auto
qed

lemma fl_minus: "fl (- x) = - fl x"
proof -
  have "ulp (- x) = ulp x" by (simp add: ulp_def binade_def)
  then show ?thesis by (simp add: fl_def rne_minus)
qed

lemma fl_mono:
  assumes "x \<le> y"
  shows "fl x \<le> fl y"
proof -
  consider "0 \<le> x" | "x < 0" "0 \<le> y" | "y < 0" by linarith
  then show ?thesis
  proof cases
    case 1
    then show ?thesis using assms by (rule fl_mono_nonneg)
  next
    case 2
    have "fl 0 \<le> fl y" using 2(2) by (intro fl_mono_nonneg) simp_all
    then show ?thesis using fl_neg [OF 2(1)] by (simp add: fl_zero)
  next
    case 3
    then have "fl (- y) \<le> fl (- x)" using assms by (intro fl_mono_nonneg) simp_all
    then show ?thesis by (simp add: fl_minus)
  qed
qed

lemma fl_ten: "fl 10 = 10" "fl (1 / 4) = 1 / 4" "fl (1 / 2) = 1 / 2"
  using fl_dyadic [of 10 10 0] fl_dyadic [of "1 / 4" 1 2] fl_dyadic [of "1 / 2" 1 1] by simp_all

section \<open>Properties of the profile catalog\<close>

lemma length_browserProfiles: "length browserProfiles = 5"
  by (simp add: browserProfiles_def)

lemma getProfileByIndex_nonneg:
  assumes "0 \<le> i"
  shows "getProfileByIndex i = Some (browserProfiles ! nat (i mod 5))"
proof -
  have r: "js_rem i 5 = i mod 5"
    using assms by (cases "i = 0") (simp_all add: js_rem_def)
  have "0 \<le> i mod 5" "i mod 5 < 5" by simp_all
  then show ?thesis
    by (simp add: getProfileByIndex_def Let_def length_browserProfiles r js_index_def)
qed

lemma getProfileByIndex_periodic_nonneg:
  assumes "0 \<le> i"
  shows "getProfileByIndex (i + int (length browserProfiles)) = getProfileByIndex i"
  using assms by (simp add: getProfileByIndex_nonneg length_browserProfiles)

text \<open>
  Claim C6. \<open>getProfileByIndex i\<close> is meant to select \<open>catalog[i mod len(catalog)]\<close> for
  every integer \<open>i\<close> and to be periodic with the catalog size as period. At the negative
  index \<open>-1\<close> the remainder \<open>-1 % 5\<close> is \<open>-1\<close>, the array read gives \<open>undefined\<close>, and the
  result differs both from the entry at \<open>(-1) mod 5 = 4\<close> and from the result at
  \<open>-1 + 5\<close>.
\<close>

theorem getProfileByIndex_negative_index:
  "getProfileByIndex (- 1) = None
   \<and> getProfileByIndex (- 1 + int (length browserProfiles)) = Some (browserProfiles ! 4)
   \<and> (- 1) mod int (length browserProfiles) = 4"
  by (simp add: getProfileByIndex_def Let_def length_browserProfiles js_rem_def js_index_def)

section \<open>Properties of the timing model\<close>

lemma js_round_NaN: "js_round v = NaN \<longleftrightarrow> v = NaN"
  by (cases v) simp_all

lemma js_add_Num_NaN: "js_add v (Num m) = NaN \<longleftrightarrow> v = NaN"
  by (cases v) simp_all

lemma js_clamp_range:
  assumes "lo \<le> hi" and "v \<noteq> NaN"
  shows "\<exists>d. js_max (Num lo) (js_min (Num hi) v) = Num d \<and> lo \<le> d \<and> d \<le> hi"
  using assms by (cases v) auto

lemma box_muller_finite:
  assumes "0 < u1" and "u1 < 1"
  shows "box_muller u1 u2 = Num (sqrt (- 2 * ln u1) * cos (2 * pi * u2))"
proof -
  have "ln u1 < 0" using assms by simp
  then have "\<not> - 2 * ln u1 < 0" by (simp add: mult_less_0_iff)
  then show ?thesis using assms by (simp add: box_muller_def)
qed

lemma box_muller_zero:
  "box_muller 0 u2 =
     (if cos (2 * pi * u2) = 0 then NaN else if 0 < cos (2 * pi * u2) then PInf else NInf)"
  by (simp add: box_muller_def)

text \<open>
  Whenever the scaled deviate is a number or an infinity, the clamp brings the delay into
  \<open>[lo, hi]\<close>.
\<close>

lemma humanDelay_ms_range:
  assumes "lo \<le> hi" and "js_mul (box_muller u1 u2) (Num ((hi - lo) / 4)) \<noteq> NaN"
  shows "\<exists>d. humanDelay_ms lo hi u1 u2 = Num d \<and> lo \<le> d \<and> d \<le> hi"
proof -
  let ?v = "js_round (js_add (js_mul (box_muller u1 u2) (Num ((hi - lo) / 4))) (Num ((lo + hi) / 2)))"
  have "?v \<noteq> NaN" using assms(2) by (simp add: js_round_NaN js_add_Num_NaN)
  from js_clamp_range [OF assms(1) this] show ?thesis
    by (simp add: humanDelay_ms_def Let_def)
qed

lemma humanDelay_ms_range_pos:
  assumes "lo \<le> hi" and "0 < u1" and "u1 < 1"
  shows "\<exists>d. humanDelay_ms lo hi u1 u2 = Num d \<and> lo \<le> d \<and> d \<le> hi"
  using assms(1) by (rule humanDelay_ms_range) (simp add: box_muller_finite assms)


lemma humanDelay_ms_equal_bounds:
  assumes "0 < u1" and "u1 < 1"
  shows "humanDelay_ms m m u1 u2 = Num m"
  using humanDelay_ms_range_pos [of m m u1 u2] assms by auto

text \<open>
  Claim C3. For \<open>min \<le> max\<close> the delay is meant to lie in \<open>[min, max]\<close>, and to be
  exactly \<open>min\<close> when \<open>min = max\<close>. \<open>Math.random()\<close> may return \<open>0\<close>; then
  \<open>Math.log(0)\<close> is minus infinity, the deviate is infinite, and with \<open>min = max\<close> the
  product with \<open>stdDev = 0\<close> is NaN, which \<open>Math.round\<close>, \<open>Math.min\<close> and
  \<open>Math.max\<close> all pass on: the computed delay is NaN, not \<open>min\<close>.
\<close>

theorem humanDelay_equal_bounds_zero_draw:
  "box_muller 0 0 = PInf \<and> humanDelay_ms 100 100 0 0 = NaN"
  by (simp add: humanDelay_ms_def box_muller_def)

section \<open>Properties of typed entry\<close>

lemma pause_class: "pauseInducing 44 \<and> pauseInducing 32"
  by (simp add: pauseInducing_def js_whitespace_def)

lemma letters_not_pause:
  assumes "(65 \<le> l \<and> l \<le> 90) \<or> (97 \<le> l \<and> l \<le> 122)"
  shows "\<not> pauseInducing l"
  using assms by (auto simp: pauseInducing_def js_whitespace_def)

lemma fl_small_values:
  "fl (1 / 2) = 1 / 2" "fl (3 / 4) = 3 / 4" "fl (5 / 4) = 5 / 4" "fl (7 / 16) = 7 / 16"
  "fl (19 / 16) = 19 / 16"
  using fl_dyadic [of "1 / 2" 1 1] fl_dyadic [of "3 / 4" 3 2] fl_dyadic [of "5 / 4" 5 2]
    fl_dyadic [of "7 / 16" 7 4] fl_dyadic [of "19 / 16" 19 4]
  by simp_all

lemma fl_delay_values:
  "fl 120 = 120" "fl 300 = 300" "fl 450 = 450" "fl 600 = 600" "fl (1425 / 4) = 1425 / 4"
  using fl_dyadic [of 120 120 0] fl_dyadic [of 300 300 0] fl_dyadic [of 450 450 0]
    fl_dyadic [of 600 600 0] fl_dyadic [of "1425 / 4" 1425 2]
  by simp_all

text \<open>
  The typing speed lies between 200 and 500 characters per minute, the base delay
  between 120 and 300 ms, and the jitter in \<open>[0.75, 1.25]\<close>: rounding is monotone and
  keeps the end points.
\<close>

lemma avgTypingSpeed_range:
  assumes "0 \<le> r" and "r < 1"
  shows "200 \<le> avgTypingSpeed r \<and> avgTypingSpeed r \<le> 500"
proof -
  have "0 \<le> r * 300" "r * 300 \<le> 300" using assms by simp_all
  then have "fl 0 \<le> fl (r * 300)" "fl (r * 300) \<le> fl 300"
    by (simp_all only: fl_mono_nonneg order_refl)
  then have "0 \<le> fl (r * 300)" "fl (r * 300) \<le> 300"
    by (simp_all only: fl_zero fl_delay_values)
  then have "0 \<le> \<lfloor>fl (r * 300)\<rfloor>" "\<lfloor>fl (r * 300)\<rfloor> \<le> 300"
    by (simp_all add: floor_le_iff)
  then show ?thesis by (simp add: avgTypingSpeed_def)
qed

lemma baseDelay_range:
  assumes "0 \<le> r" and "r < 1"
  shows "120 \<le> baseDelay r \<and> baseDelay r \<le> 300"
proof -
  let ?s = "real_of_int (avgTypingSpeed r)"
  have s: "200 \<le> ?s" "?s \<le> 500" using avgTypingSpeed_range [OF assms] by simp_all
  then have q: "120 \<le> 60000 / ?s" "60000 / ?s \<le> 300" by (simp_all add: field_simps)
  then have "0 \<le> 60000 / ?s" by linarith
  then have "fl 120 \<le> fl (60000 / ?s)" "fl (60000 / ?s) \<le> fl 300"
    using q by (simp_all only: fl_mono_nonneg zero_le_numeral)
  then show ?thesis by (simp only: fl_delay_values baseDelay_def)
qed

lemma variation_range:
  assumes "0 \<le> r" and "r < 1"
  shows "3 / 4 \<le> variation r \<and> variation r \<le> 5 / 4"
proof -
  have "0 \<le> r * 0.5" "r * 0.5 \<le> 1 / 2" using assms by simp_all
  then have "fl 0 \<le> fl (r * 0.5)" "fl (r * 0.5) \<le> fl (1 / 2)"
    by (simp_all only: fl_mono_nonneg order_refl)
  then have h: "0 \<le> fl (r * 0.5)" "fl (r * 0.5) \<le> 1 / 2"
    by (simp_all only: fl_zero fl_small_values)
  then have "3 / 4 \<le> fl (r * 0.5) + 0.75" "fl (r * 0.5) + 0.75 \<le> 5 / 4" by simp_all
  then have "fl (3 / 4) \<le> fl (fl (r * 0.5) + 0.75)" "fl (fl (r * 0.5) + 0.75) \<le> fl (5 / 4)"
    by (simp_all add: fl_mono_nonneg)
  then show ?thesis by (simp only: fl_small_values variation_def)
qed

lemma typed_values:
  "baseDelay 0 = 300" "variation 0 = 3 / 4" "variation (7 / 8) = 19 / 16"
  by (simp_all add: baseDelay_def avgTypingSpeed_def variation_def fl_zero fl_small_values
      fl_delay_values)

text \<open>
  The factor 2 is a power of two, so doubling commutes with rounding; each rounding
  changes a positive value by at most one part in \<open>2 ^ 53\<close>.
\<close>

lemma rawCharDelay_pause:
  assumes "pauseInducing c"
  shows "rawCharDelay base c r = 2 * fl (fl base * variation r)"
proof -
  have "fl (base * 2) = 2 * fl base" using fl_twice [of base] by (simp add: mult.commute)
  then have "rawCharDelay base c r = fl (2 * (fl base * variation r))"
    using assms by (simp add: rawCharDelay_def typingFactor_def mult.assoc)
  then show ?thesis by (simp only: fl_twice)
qed

lemma rawCharDelay_other:
  assumes "\<not> pauseInducing l"
  shows "rawCharDelay base l r = fl (fl base * variation r)"
  using assms by (simp add: rawCharDelay_def typingFactor_def)

lemma fl_lower:
  assumes "0 < x"
  shows "x * (1 - 1 / 2 ^ 53) \<le> fl x"
proof -
  have "x - x / 2 ^ 53 \<le> fl x" using fl_error [OF assms] by linarith
  then show ?thesis by (simp add: algebra_simps)
qed

lemma fl_upper:
  assumes "0 < x"
  shows "fl x \<le> x * (1 + 1 / 2 ^ 53)"
proof -
  have "fl x \<le> x + x / 2 ^ 53" using fl_error [OF assms] by linarith
  then show ?thesis by (simp add: algebra_simps)
qed

text \<open>
  Claim C5, as amended. For one invocation (typing speed draw \<open>r0\<close>) and any two jitter
  draws, a character \<open>c\<close> of the pause-inducing class and a character \<open>l\<close> outside it:
  the factor of \<open>c\<close> is twice the factor of \<open>l\<close>; the jitter lies in \<open>[0.75, 1.25]\<close>;
  with the same jitter the delay of \<open>c\<close> before \<open>Math.floor\<close> is exactly twice that of
  \<open>l\<close>; with different jitters the delay of \<open>c\<close> is at least 1.19 times the delay of
  \<open>l\<close>, both after \<open>Math.floor\<close>.
\<close>

theorem typed_entry_pause_delay:
  assumes "0 \<le> r0" and "r0 < 1" and "0 \<le> r1" and "r1 < 1" and "0 \<le> r2" and "r2 < 1"
    and "pauseInducing c" and "\<not> pauseInducing l"
  shows "typingFactor c = 2 * typingFactor l
    \<and> 3 / 4 \<le> variation r1 \<and> variation r1 \<le> 5 / 4
    \<and> rawCharDelay (baseDelay r0) c r1 = 2 * rawCharDelay (baseDelay r0) l r1
    \<and> 119 / 100 * charDelay (baseDelay r0) l r2 \<le> charDelay (baseDelay r0) c r1"
proof -
  let ?b = "baseDelay r0"
  define B where "B = fl ?b"
  have "fl 120 \<le> fl ?b" using baseDelay_range [OF assms(1,2)] by (simp add: fl_mono_nonneg)
  then have B: "120 \<le> B" by (simp only: fl_delay_values B_def)
  have v1: "3 / 4 \<le> variation r1" "variation r1 \<le> 5 / 4"
    using variation_range [OF assms(3,4)] by simp_all
  have v2: "3 / 4 \<le> variation r2" "variation r2 \<le> 5 / 4"
    using variation_range [OF assms(5,6)] by simp_all
  have fc: "typingFactor c = 2" and fl': "typingFactor l = 1"
    using assms(7,8) by (simp_all add: typingFactor_def)
  have dbl: "rawCharDelay ?b c r1 = 2 * rawCharDelay ?b l r1"
    by (simp only: rawCharDelay_pause [OF assms(7)] rawCharDelay_other [OF assms(8)])
  txt \<open>the pause-inducing character, from below\<close>
  have p1: "B * (3 / 4) \<le> B * variation r1" using B v1(1) by (intro mult_left_mono) simp_all
  have "0 < B * variation r1" using B v1(1) by (simp add: zero_less_mult_iff)
  then have "B * variation r1 * (1 - 1 / 2 ^ 53) \<le> fl (B * variation r1)" by (rule fl_lower)
  moreover have "B * (3 / 4) * (1 - 1 / 2 ^ 53) \<le> B * variation r1 * (1 - 1 / 2 ^ 53)"
    using p1 by (intro mult_right_mono) simp_all
  ultimately have "B * (3 / 4) * (1 - 1 / 2 ^ 53) \<le> fl (B * variation r1)"
    by (rule order_trans [rotated])
  then have lo: "2 * (B * (3 / 4) * (1 - 1 / 2 ^ 53)) \<le> rawCharDelay ?b c r1"
    unfolding rawCharDelay_pause [OF assms(7)] B_def by linarith
  txt \<open>the other character, from above\<close>
  have p2: "B * variation r2 \<le> B * (5 / 4)" using B v2(2) by (intro mult_left_mono) simp_all
  have "0 < B * variation r2" using B v2(1) by (simp add: zero_less_mult_iff)
  then have "fl (B * variation r2) \<le> B * variation r2 * (1 + 1 / 2 ^ 53)" by (rule fl_upper)
  moreover have "B * variation r2 * (1 + 1 / 2 ^ 53) \<le> B * (5 / 4) * (1 + 1 / 2 ^ 53)"
    using p2 by (intro mult_right_mono) simp_all
  ultimately have hi: "rawCharDelay ?b l r2 \<le> B * (5 / 4) * (1 + 1 / 2 ^ 53)"
    unfolding rawCharDelay_other [OF assms(8)] B_def by (rule order_trans)
  have "charDelay ?b l r2 \<le> rawCharDelay ?b l r2" by (simp add: charDelay_def)
  moreover have "rawCharDelay ?b c r1 - 1 < charDelay ?b c r1"
    unfolding charDelay_def by linarith
  ultimately have "119 / 100 * charDelay ?b l r2 \<le> charDelay ?b c r1"
    using lo hi B by simp
  then show ?thesis using fc fl' v1 dbl by simp
qed


theorem typed_entry_pause_delay_witness:
  "(0::real) \<le> 0 \<and> (0::real) < 1 \<and> (0::real) \<le> 7 / 8 \<and> (7 / 8 :: real) < 1
   \<and> pauseInducing 44 \<and> \<not> pauseInducing 72
   \<and> typingFactor 44 = 2 * typingFactor 72
   \<and> rawCharDelay (baseDelay 0) 44 0 = 2 * rawCharDelay (baseDelay 0) 72 0
   \<and> 119 / 100 * charDelay (baseDelay 0) 72 (7 / 8) \<le> charDelay (baseDelay 0) 44 0"
proof -
  have p: "pauseInducing 44" and l: "\<not> pauseInducing 72"
    by (simp_all add: pauseInducing_def js_whitespace_def)
  have h: "(0::real) \<le> 0" "(0::real) < 1" "(0::real) \<le> 7 / 8" "(7 / 8 :: real) < 1" by simp_all
  from typed_entry_pause_delay [OF h(1) h(2) h(1) h(2) h(3) h(4) p l] p l show ?thesis by simp
qed

text \<open>
  Claim C5 as stated: the factor 1.5 does not hold. At the slowest typing speed (base
  delay 300 ms), a comma or a space with the smallest jitter waits 450 ms, a letter with
  jitter 1.1875 waits 356 ms, and 1.5 times 356 exceeds 450.
\<close>

theorem typed_entry_ratio_counterexample:
  "pauseInducing 44 \<and> pauseInducing 32 \<and> \<not> pauseInducing 72
   \<and> baseDelay 0 = 300
   \<and> charDelay (baseDelay 0) 44 0 = 450
   \<and> charDelay (baseDelay 0) 32 0 = 450
   \<and> charDelay (baseDelay 0) 72 (7 / 8) = 356
   \<and> \<not> 3 / 2 * charDelay (baseDelay 0) 72 (7 / 8) \<le> charDelay (baseDelay 0) 44 0
   \<and> \<not> 3 / 2 * charDelay (baseDelay 0) 72 (7 / 8) \<le> charDelay (baseDelay 0) 32 0"
  by (simp add: pauseInducing_def js_whitespace_def typed_values charDelay_def rawCharDelay_def
      typingFactor_def fl_delay_values)

text \<open>
  The rounding of each operation is visible in the delay: at 285 characters per minute
  the quotient \<open>60000 / 285\<close> is rounded down, its product with the jitter 1.1875 stays
  below 250, and the delay is 249 ms where the exact product is 250.
\<close>

lemma charDelay_rounding:
  "avgTypingSpeed (73 / 256) = 285 \<and> charDelay (baseDelay (73 / 256)) 97 (7 / 8) = 249
   \<and> \<lfloor>60000 / 285 * 1 * (19 / 16) :: real\<rfloor> = 250"
proof -
  have s: "fl (5475 / 64) = 5475 / 64" using fl_dyadic [of "5475 / 64" 5475 6] by simp
  have a: "fl (4000 / 19) = 7407236229227789 / 35184372088832"
    by (subst fl_eval [where n = 45]) (simp_all add: rne_def)
  have b: "fl (7407236229227789 / 35184372088832) = 7407236229227789 / 35184372088832"
    by (subst fl_eval [where n = 45]) (simp_all add: rne_def)
  have c: "fl (140737488355327991 / 562949953421312) = 8796093022207999 / 35184372088832"
    by (subst fl_eval [where n = 45]) (simp_all add: rne_def)
  have v: "avgTypingSpeed (73 / 256) = 285" by (simp add: avgTypingSpeed_def s)
  have l: "\<not> pauseInducing 97" by (simp add: pauseInducing_def js_whitespace_def)
  have "charDelay (baseDelay (73 / 256)) 97 (7 / 8) = 249"
    by (simp add: charDelay_def rawCharDelay_def typingFactor_def l baseDelay_def v typed_values
        a b c)
  then show ?thesis using v by simp
qed

text \<open>
  These delays are the ones \<open>humanType\<close> waits for. When every character can be
  injected, by key press or by the fallback, the call completes, the characters that
  reached the field are exactly the text, and the pauses are one per character, drawn
  around its \<open>charDelay\<close>, followed by the closing pause.
\<close>

lemma typedOf_append: "typedOf (xs @ ys) = typedOf xs @ typedOf ys"
  by (induction xs rule: typedOf.induct) simp_all

lemma sleepsOf_append: "sleepsOf (xs @ ys) = sleepsOf xs @ sleepsOf ys"
  by (induction xs rule: sleepsOf.induct) simp_all

lemma typeLoop_step:
  assumes "pressThrows drv c = None \<or> typeThrows drv c = None"
  shows "typeLoop drv base rnd j (c # cs)
         = (fst (typeLoop drv base rnd (j + 1 + 2) cs),
            (if pressThrows drv c = None then KeyPress (CharKey c) else TypeText c)
              # Sleep (humanDelay_ms (charDelay base c (rnd j)) (charDelay base c (rnd j) + 50)
                        (rnd (j + 1)) (rnd (j + 1 + 1)))
              # fst (snd (typeLoop drv base rnd (j + 1 + 2) cs)),
            snd (snd (typeLoop drv base rnd (j + 1 + 2) cs)))"
  by (cases "pressThrows drv c") (use assms in \<open>auto simp: Let_def split_beta humanDelay_def\<close>)

lemma typeLoop_completes:
  assumes "\<forall>c \<in> set cs. pressThrows drv c = None \<or> typeThrows drv c = None"
  shows "fst (typeLoop drv base rnd (k + 3 * i) cs) = Inr ()
    \<and> typedOf (fst (snd (typeLoop drv base rnd (k + 3 * i) cs))) = cs
    \<and> sleepsOf (fst (snd (typeLoop drv base rnd (k + 3 * i) cs)))
        = map (\<lambda>(j, c). charPause base rnd k j c) (enumerate i cs)
    \<and> snd (snd (typeLoop drv base rnd (k + 3 * i) cs)) = k + 3 * (i + length cs)"
  using assms
proof (induction cs arbitrary: i)
  case Nil
  show ?case by simp
next
  case (Cons c cs)
  have ok: "pressThrows drv c = None \<or> typeThrows drv c = None" using Cons(2) by simp
  have rest: "\<forall>c \<in> set cs. pressThrows drv c = None \<or> typeThrows drv c = None"
    using Cons(2) by simp
  have idx: "k + 3 * i + 1 + 2 = k + 3 * Suc i" by simp
  note IH = Cons(1) [OF rest, of "Suc i"]
  note st = typeLoop_step [OF ok, of base rnd "k + 3 * i" cs, unfolded idx]
  have pause: "humanDelay_ms (charDelay base c (rnd (k + 3 * i))) (charDelay base c (rnd (k + 3 * i)) + 50)
                 (rnd (k + 3 * i + 1)) (rnd (k + 3 * i + 1 + 1)) = charPause base rnd k i c"
    by (simp add: charPause_def add.assoc)
  show ?case
    unfolding st pause using IH by (cases "pressThrows drv c") simp_all
qed

lemma clearField_no_typing: "typedOf (clearField drv) = [] \<and> sleepsOf (clearField drv) = []"
  by (simp add: clearField_def)

lemma humanType_completes:
  assumes "\<forall>c \<in> set cs. pressThrows drv c = None \<or> typeThrows drv c = None"
  shows "fst (humanType drv cs rnd k) = Inr ()
    \<and> typedOf (fst (snd (humanType drv cs rnd k))) = cs
    \<and> sleepsOf (fst (snd (humanType drv cs rnd k)))
        = map (\<lambda>(j, c). charPause (baseDelay (rnd k)) rnd (k + 1) j c) (enumerate 0 cs)
          @ [humanDelay_ms 300 800 (rnd (k + 1 + 3 * length cs)) (rnd (k + 1 + 3 * length cs + 1))]"
  using typeLoop_completes [OF assms, of "baseDelay (rnd k)" rnd "k + 1" 0] clearField_no_typing [of drv]
  by (simp add: humanType_def Let_def split_beta humanDelay_def typedOf_append sleepsOf_append)

section \<open>Properties of pointer movement\<close>

text \<open>
  The number of steps is between 5 and 10; the progress of step 0 is 0, of the last
  step 1, and of the middle step of an even number of steps one half.
\<close>

lemma mouseSteps_range:
  assumes "0 \<le> r" and "r < 1"
  shows "5 \<le> mouseSteps r \<and> mouseSteps r \<le> 10"
proof -
  have "fl 0 \<le> fl (r * 5)" "fl (r * 5) \<le> fl 5" using assms by (simp_all add: fl_mono)
  moreover have "fl 5 = 5" using fl_dyadic [of 5 5 0] by simp
  ultimately have "0 \<le> fl (r * 5)" "fl (r * 5) \<le> 5" by (simp_all add: fl_zero)
  then have "0 \<le> \<lfloor>fl (r * 5)\<rfloor>" "\<lfloor>fl (r * 5)\<rfloor> \<le> 5" by (simp_all add: floor_le_iff)
  then show ?thesis by (simp add: mouseSteps_def)
qed

lemma stepProgress_zero: "stepProgress 0 n = 0"
  by (simp add: stepProgress_def fl_zero)

lemma stepProgress_full:
  assumes "0 < n"
  shows "stepProgress n n = 1"
  using assms by (simp add: stepProgress_def fl_one)

lemma stepProgress_half:
  assumes "0 < n" and "even n"
  shows "stepProgress (n div 2) n = 1 / 2"
proof -
  from assms(2) obtain m where m: "n = 2 * m" ..
  then have "real_of_int (n div 2) / real_of_int n = 1 / 2" using assms(1) by simp
  then show ?thesis by (simp add: stepProgress_def fl_ten)
qed

text \<open>
  The factor \<open>Math.sin(progress * Math.PI)\<close> is 0 at progress 0, 1 at progress one half,
  never more than 1, and the rounded sine of \<open>Math.PI\<close> at progress 1.
\<close>

lemma jitterFactor_zero: "jitterFactor 0 = 0"
  by (simp add: jitterFactor_def mathSin_def fl_zero)

lemma jitterFactor_one: "jitterFactor 1 = mathSin MathPI"
  by (simp add: jitterFactor_def fl_MathPI)

lemma jitterFactor_half: "jitterFactor (1 / 2) = 1"
proof -
  have "1 / 2 * MathPI = MathPI / 2" by simp
  then show ?thesis by (simp only: jitterFactor_def fl_MathPI mathSin_half_MathPI)
qed

lemma jitterFactor_le_one: "jitterFactor p \<le> 1"
  by (simp add: jitterFactor_def mathSin_le_one)

text \<open>
  The jitter is 0 for the factor 0. For a positive factor it has the sign of
  \<open>u - 0.5\<close>, and its magnitude is at most the rounded product of 10 and the factor.
\<close>

lemma jitter_zero: "jitter u 0 = 0"
  by (simp add: jitter_def fl_zero)

lemma jitter_sign:
  assumes "0 < f"
  shows "u < 1 / 2 \<Longrightarrow> jitter u f < 0" and "1 / 2 < u \<Longrightarrow> 0 < jitter u f"
proof -
  assume u: "u < 1 / 2"
  then have "fl (u - 0.5) < 0" by (intro fl_neg) simp
  then have "fl (fl (u - 0.5) * 20) < 0" by (intro fl_neg) simp
  then have "fl (fl (u - 0.5) * 20) * f < 0" using assms by (simp add: mult_less_0_iff)
  then show "jitter u f < 0" unfolding jitter_def by (rule fl_neg)
next
  assume u: "1 / 2 < u"
  then have "0 < fl (u - 0.5)" by (intro fl_pos) simp
  then have "0 < fl (fl (u - 0.5) * 20)" by (intro fl_pos) simp
  then have "0 < fl (fl (u - 0.5) * 20) * f" using assms by simp
  then show "0 < jitter u f" unfolding jitter_def by (rule fl_pos)
qed

lemma jitter_bound:
  assumes "0 \<le> u" and "u < 1" and "0 \<le> f"
  shows "\<bar>jitter u f\<bar> \<le> fl (10 * f)"
proof -
  define a where "a = fl (u - 0.5)"
  define b where "b = fl (a * 20)"
  have "fl (- (1 / 2)) \<le> fl (u - 0.5)" "fl (u - 0.5) \<le> fl (1 / 2)"
    using assms(1,2) by (simp_all add: fl_mono)
  then have a: "- (1 / 2) \<le> a" "a \<le> 1 / 2" by (simp_all add: a_def fl_minus fl_ten)
  then have "fl (- 10) \<le> fl (a * 20)" "fl (a * 20) \<le> fl 10" by (simp_all add: fl_mono)
  then have b: "- 10 \<le> b" "b \<le> 10" by (simp_all add: b_def fl_minus fl_ten)
  have "- (10 * f) \<le> b * f" "b * f \<le> 10 * f"
    using b assms(3) mult_right_mono [of "- 10" b f] mult_right_mono [of b 10 f] by simp_all
  then have "fl (- (10 * f)) \<le> fl (b * f)" "fl (b * f) \<le> fl (10 * f)" by (simp_all only: fl_mono)
  then show ?thesis by (simp add: jitter_def a_def b_def fl_minus abs_le_iff)
qed

text \<open>
  The cursor moves of a trajectory are the points \<open>movePoint .. i\<close> for the steps
  \<open>i = 0, .., steps\<close>, in this order.
\<close>

lemma movesOf_append: "movesOf (xs @ ys) = movesOf xs @ movesOf ys"
  by (induction xs rule: movesOf.induct) simp_all

lemma movesOf_mouseLoop_step:
  assumes "i \<le> n"
  shows "movesOf (fst (mouseLoop sx sy tx ty n rnd i j))
         = (fl (fl (sx + fl (fl (tx - sx) * stepProgress i n))
                + jitter (rnd j) (jitterFactor (stepProgress i n))),
            fl (fl (sy + fl (fl (ty - sy) * stepProgress i n))
                + jitter (rnd (j + 1)) (jitterFactor (stepProgress i n))))
           # movesOf (fst (mouseLoop sx sy tx ty n rnd (i + 1) (j + 2 + 2)))"
  by (subst mouseLoop.simps)
     (simp add: assms Let_def split_beta humanDelay_def movesOf_append)

lemma movesOf_mouseLoop_stop:
  assumes "\<not> i \<le> n"
  shows "mouseLoop sx sy tx ty n rnd i j = ([], j)"
  by (subst mouseLoop.simps) (simp add: assms)

lemma movesOf_mouseLoop:
  assumes "0 \<le> i"
  shows "movesOf (fst (mouseLoop sx sy tx ty n rnd i (k + 4 * nat i)))
         = map (movePoint sx sy tx ty n rnd k) [i..n]"
  using assms
proof (induction "nat (n + 1 - i)" arbitrary: i)
  case 0
  then have "\<not> i \<le> n" by simp
  then show ?case by (simp add: movesOf_mouseLoop_stop)
next
  case (Suc m)
  then have le: "i \<le> n" by simp
  have m: "m = nat (n + 1 - (i + 1))" using Suc(2) by simp
  have i1: "0 \<le> i + 1" using Suc(3) by simp
  have idx: "k + 4 * nat i + 2 + 2 = k + 4 * nat (i + 1)" using Suc(3) by (simp add: nat_add_distrib)
  have IH: "movesOf (fst (mouseLoop sx sy tx ty n rnd (i + 1) (k + 4 * nat (i + 1))))
            = map (movePoint sx sy tx ty n rnd k) [i + 1..n]"
    using Suc(1) [OF m i1] .
  have up: "[i..n] = i # [i + 1..n]" using le by (simp add: upto_rec1)
  have "movesOf (fst (mouseLoop sx sy tx ty n rnd i (k + 4 * nat i)))
        = movePoint sx sy tx ty n rnd k i
          # movesOf (fst (mouseLoop sx sy tx ty n rnd (i + 1) (k + 4 * nat i + 2 + 2)))"
    by (simp only: movesOf_mouseLoop_step [OF le] movePoint_def)
  also have "\<dots> = movePoint sx sy tx ty n rnd k i # map (movePoint sx sy tx ty n rnd k) [i + 1..n]"
    by (simp only: idx IH)
  finally show ?case by (simp only: up list.map)
qed

lemma humanMouseMovement_moves:
  "movesOf (fst (humanMouseMovement pg (Some b) rnd k))
   = map (movePoint (fl (rnd k * real (width (viewportOrDefault pg))))
                    (fl (rnd (k + 1) * real (height (viewportOrDefault pg))))
                    (fl (box_x b + fl (box_width b * fl (0.25 + fl (rnd (k + 2) * 0.5)))))
                    (fl (box_y b + fl (box_height b * fl (0.25 + fl (rnd (k + 3) * 0.5)))))
                    (mouseSteps (rnd (k + 4))) rnd (k + 5))
         [0..mouseSteps (rnd (k + 4))]"
  using movesOf_mouseLoop [of 0 _ _ _ _ _ rnd "k + 5"]
  by (simp add: humanMouseMovement_def Let_def)

lemma last_upto_map:
  assumes "0 \<le> n"
  shows "last (map f [0..n]) = f n" and "length (map f [0..n]) = nat (n + 1)"
proof -
  have "[0..n] = [0..n - 1] @ [n]" using assms by (simp add: upto_rec2)
  then show "last (map f [0..n]) = f n" by simp
  show "length (map f [0..n]) = nat (n + 1)" by simp
qed

lemma movePoint_first: "movePoint sx sy tx ty n rnd k 0 = (fl (fl sx), fl (fl sy))"
  by (simp add: movePoint_def stepProgress_zero jitterFactor_zero jitter_zero fl_zero)

text \<open>
  The jitter of step 0 is 0 for every draw and every number of steps. The jitter of the
  last step is not 0 unless the draw is exactly one half, and its magnitude is at most
  \<open>5 / 2 ^ 51\<close>. When the number of steps is even, the factor of the middle step is 1,
  the largest value the factor takes.
\<close>

lemma pointer_jitter_step0: "jitter u (jitterFactor (stepProgress 0 n)) = 0"
  by (simp only: stepProgress_zero jitterFactor_zero jitter_zero)

lemma pointer_jitter_last_nonzero:
  assumes "0 < n" and "u \<noteq> 1 / 2"
  shows "jitter u (jitterFactor (stepProgress n n)) \<noteq> 0"
proof -
  have f: "0 < jitterFactor (stepProgress n n)"
    using mathSin_MathPI by (simp only: stepProgress_full [OF assms(1)] jitterFactor_one)
  consider "u < 1 / 2" | "1 / 2 < u" using assms(2) by linarith
  then show ?thesis using jitter_sign [OF f, of u] by cases simp_all
qed

lemma pointer_jitter_last_small:
  assumes "0 < n" and "0 \<le> u" and "u < 1"
  shows "\<bar>jitter u (jitterFactor (stepProgress n n))\<bar> \<le> 5 / 2 ^ 51"
proof -
  have f: "jitterFactor (stepProgress n n) = mathSin MathPI"
    by (simp only: stepProgress_full [OF assms(1)] jitterFactor_one)
  have m: "0 < mathSin MathPI" "mathSin MathPI \<le> 1 / 2 ^ 52" using mathSin_MathPI by simp_all
  then have "10 * mathSin MathPI \<le> 5 / 2 ^ 51" by simp
  then have "fl (10 * mathSin MathPI) \<le> fl (5 / 2 ^ 51)" by (rule fl_mono)
  moreover have "fl (5 / 2 ^ 51) = 5 / 2 ^ 51" using fl_dyadic [of "5 / 2 ^ 51" 5 51] by simp
  moreover have "\<bar>jitter u (mathSin MathPI)\<bar> \<le> fl (10 * mathSin MathPI)"
    using assms(2,3) m(1) by (intro jitter_bound) simp_all
  ultimately show ?thesis unfolding f by linarith
qed

lemma jitterFactor_even_midpoint:
  assumes "0 < n" and "even n"
  shows "jitterFactor (stepProgress (n div 2) n) = 1"
  by (simp only: stepProgress_half [OF assms] jitterFactor_half)

text \<open>
  Claim C7. The jitter is 0 at step 0 but not at the final step. With five steps (draw 0)
  the progress of step 5 is 1, the argument of the sine is \<open>Math.PI\<close>, which lies below
  \<open>pi\<close>, and the factor is a positive double of at most \<open>2 ^ - 52\<close> where the comment in
  the code reads \<open>0->1->0\<close>. For the draw 0 the jitter \<open>(0 - 0.5) * 20 * factor\<close> of step 5
  is negative, of magnitude at most \<open>5 / 2 ^ 51\<close>. In the trajectory towards a box at
  \<open>(-10, -10)\<close> of size 40 by 40 on the default viewport, every draw being 0, the start and
  the target are both \<open>(0, 0)\<close>; the six moves begin with \<open>(0, 0)\<close> and end with a point
  of negative coordinates, not with the target.
\<close>

theorem pointer_jitter_last_step_nonzero:
  "mouseSteps 0 = 5
   \<and> jitter 0 (jitterFactor (stepProgress 0 5)) = 0
   \<and> jitterFactor (stepProgress 5 5) = mathSin MathPI
   \<and> 0 < jitterFactor (stepProgress 5 5)
   \<and> jitterFactor (stepProgress 5 5) \<le> 1 / 2 ^ 52
   \<and> jitter 0 (jitterFactor (stepProgress 5 5)) < 0
   \<and> - (5 / 2 ^ 51) \<le> jitter 0 (jitterFactor (stepProgress 5 5))
   \<and> length (movesOf (fst (humanMouseMovement \<lparr>viewportSize = None\<rparr>
                (Some (Box (- 10) (- 10) 40 40)) (\<lambda>i. 0) 0))) = 6
   \<and> hd (movesOf (fst (humanMouseMovement \<lparr>viewportSize = None\<rparr>
                (Some (Box (- 10) (- 10) 40 40)) (\<lambda>i. 0) 0))) = (0, 0)
   \<and> fst (last (movesOf (fst (humanMouseMovement \<lparr>viewportSize = None\<rparr>
                (Some (Box (- 10) (- 10) 40 40)) (\<lambda>i. 0) 0)))) < 0
   \<and> snd (last (movesOf (fst (humanMouseMovement \<lparr>viewportSize = None\<rparr>
                (Some (Box (- 10) (- 10) 40 40)) (\<lambda>i. 0) 0)))) < 0"
proof -
  have s: "mouseSteps 0 = 5" by (simp add: mouseSteps_def fl_zero)
  have p: "stepProgress 5 5 = 1" by (rule stepProgress_full) simp
  have f: "jitterFactor (stepProgress 5 5) = mathSin MathPI" by (simp only: p jitterFactor_one)
  have m: "0 < mathSin MathPI" "mathSin MathPI \<le> 1 / 2 ^ 52" using mathSin_MathPI by simp_all
  have j0: "jitter 0 (jitterFactor (stepProgress 0 5)) = 0" by (rule pointer_jitter_step0)
  have jn: "jitter 0 (mathSin MathPI) < 0" using m(1) by (intro jitter_sign(1)) simp_all
  have js: "\<bar>jitter 0 (jitterFactor (stepProgress 5 5))\<bar> \<le> 5 / 2 ^ 51"
    by (rule pointer_jitter_last_small) simp_all
  have t: "fl (- 10 + fl (40 * fl (0.25 + fl (0 * 0.5)))) = 0"
    by (simp add: fl_zero fl_ten)
  have mv: "movesOf (fst (humanMouseMovement \<lparr>viewportSize = None\<rparr>
                (Some (Box (- 10) (- 10) 40 40)) (\<lambda>i. 0) 0))
            = map (movePoint 0 0 0 0 5 (\<lambda>i. 0) 5) [0..5]"
    unfolding humanMouseMovement_moves by (simp add: s fl_zero fl_ten)
  have up: "[0..5::int] = 0 # [1..5]" by (simp add: upto_rec1)
  have lst: "movePoint 0 0 0 0 5 (\<lambda>i. 0) 5 5 = (fl (jitter 0 (mathSin MathPI)), fl (jitter 0 (mathSin MathPI)))"
    by (simp add: movePoint_def p jitterFactor_one fl_zero)
  have neg: "fl (jitter 0 (mathSin MathPI)) < 0" using jn by (rule fl_neg)
  have l: "last (map (movePoint 0 0 0 0 5 (\<lambda>i. 0) 5) [0..5])
           = (fl (jitter 0 (mathSin MathPI)), fl (jitter 0 (mathSin MathPI)))"
    using last_upto_map(1) [of 5 "movePoint 0 0 0 0 5 (\<lambda>i. 0) 5"] by (simp only: lst)
  have h: "hd (map (movePoint 0 0 0 0 5 (\<lambda>i. 0) 5) [0..5]) = (0, 0)"
    unfolding up by (simp add: movePoint_first fl_zero)
  have n: "length (map (movePoint 0 0 0 0 5 (\<lambda>i. 0) 5) [0..5]) = 6" by simp
  show ?thesis
    unfolding mv l h n using s j0 f m jn js neg by (simp add: abs_le_iff)
qed

text \<open>
  Away from 0 the addition absorbs a jitter of this size: towards a box at
  \<open>(100, 200)\<close> of size 40 by 20, every draw being 0, the last move is the target
  \<open>(110, 205)\<close> itself.
\<close>

lemma last_move_absorbs_jitter:
  "last (movesOf (fst (humanMouseMovement \<lparr>viewportSize = None\<rparr>
                (Some (Box 100 200 40 20)) (\<lambda>i. 0) 0))) = (110, 205)"
proof -
  have s: "mouseSteps 0 = 5" by (simp add: mouseSteps_def fl_zero)
  have p: "stepProgress 5 5 = 1" by (rule stepProgress_full) simp
  have v: "fl 110 = 110" "fl 205 = 205" "fl 5 = 5"
    using fl_dyadic [of 110 110 0] fl_dyadic [of 205 205 0] fl_dyadic [of 5 5 0] by simp_all
  have mv: "movesOf (fst (humanMouseMovement \<lparr>viewportSize = None\<rparr>
                (Some (Box 100 200 40 20)) (\<lambda>i. 0) 0))
            = map (movePoint 0 0 110 205 5 (\<lambda>i. 0) 5) [0..5]"
    unfolding humanMouseMovement_moves by (simp add: s fl_zero fl_ten v)
  define j where "j = jitter 0 (mathSin MathPI)"
  have "\<bar>jitter 0 (jitterFactor (stepProgress 5 5))\<bar> \<le> 5 / 2 ^ 51"
    by (rule pointer_jitter_last_small) simp_all
  then have j: "- (5 / 2 ^ 51) \<le> j" "j \<le> 5 / 2 ^ 51"
    by (simp_all add: p jitterFactor_one j_def abs_le_iff)
  have e1: "fl (110 - 5 / 2 ^ 51) = 110" "fl (110 + 5 / 2 ^ 51) = 110"
    by (subst fl_eval [where n = 46]; simp add: rne_def)+
  have e2: "fl (205 - 5 / 2 ^ 51) = 205" "fl (205 + 5 / 2 ^ 51) = 205"
    by (subst fl_eval [where n = 45]; simp add: rne_def)+
  have "fl (110 - 5 / 2 ^ 51) \<le> fl (110 + j)" "fl (110 + j) \<le> fl (110 + 5 / 2 ^ 51)"
    "fl (205 - 5 / 2 ^ 51) \<le> fl (205 + j)" "fl (205 + j) \<le> fl (205 + 5 / 2 ^ 51)"
    using j by (simp_all add: fl_mono)
  then have a: "fl (110 + j) = 110" "fl (205 + j) = 205" unfolding e1 e2 by simp_all
  have lst: "movePoint 0 0 110 205 5 (\<lambda>i. 0) 5 5 = (110, 205)"
    using a by (simp add: movePoint_def p jitterFactor_one fl_zero v j_def)
  show ?thesis
    unfolding mv using last_upto_map(1) [of 5 "movePoint 0 0 110 205 5 (\<lambda>i. 0) 5"] lst by simp
qed


text \<open>
  Claim C10. When the bounding box query returns \<open>null\<close>, \<open>humanMouseMovement\<close>
  returns at once: it issues no cursor move and no pause (the event list is empty) and
  draws no random number, so nothing it could fail on is called.
\<close>

theorem humanMouseMovement_no_box:
  "humanMouseMovement pg None rnd k = ([], k)"
  by (simp add: humanMouseMovement_def)

section \<open>Properties of scrolling\<close>













section \<open>Properties of idle scanning\<close>













text \<open>
  With the same duration and draws but a clock that has already advanced by the whole
  duration at the first test, the loop does not iterate at all.
\<close>

lemma idle_scanning_count_follows_clock:
  "randomMouseMovements \<lparr>viewportSize = None\<rparr> 200 (\<lambda>j. 200 * int j) (\<lambda>i. 0) 0 = Some ([], 0)"
  by (simp add: randomMouseMovements_def viewportOrDefault_def idleLoop.simps Let_def)

section \<open>Properties of the execution guard\<close>

lemma invocations_append: "invocations (xs @ ys) = invocations xs + invocations ys"
  by (induction xs rule: invocations.induct) simp_all

lemma observedErrors_append: "observedErrors (xs @ ys) = observedErrors xs @ observedErrors ys"
  by (induction xs rule: observedErrors.induct) simp_all

lemma timeoutCleanup_trace:
  "invocations (snd (timeoutCleanup w)) = 0 \<and> observedErrors (snd (timeoutCleanup w)) = []"
  by (simp add: timeoutCleanup_def split: option.split)

lemma onFailure_trace:
  "invocations (snd (onFailure attempt retries e w)) = 0
   \<and> observedErrors (snd (onFailure attempt retries e w)) = [e]"
  using timeoutCleanup_trace [of w]
  by (simp add: onFailure_def Let_def split_beta invocations_append observedErrors_append)

lemma safeExecuteLoop_stop:
  assumes "\<not> attempt < retries"
  shows "safeExecuteLoop fn timeoutMs retries attempt lastError w tr
         = (Inl (exhaustedError lastError), w, tr)"
  by (subst safeExecuteLoop.simps) (use assms in simp)

lemma safeExecuteLoop_resolves:
  assumes "attempt < retries" and "fn w = (Resolves v, w1)"
  shows "safeExecuteLoop fn timeoutMs retries attempt lastError w tr = (Inr v, w1, tr @ [Invoked])"
  by (subst safeExecuteLoop.simps) (use assms in simp)

lemma safeExecuteLoop_fails:
  assumes "attempt < retries" and "fn w = (out, w1)" and "out = Rejects e \<or> out = TimesOut"
  shows "safeExecuteLoop fn timeoutMs retries attempt lastError w tr
         = safeExecuteLoop fn timeoutMs retries (attempt + 1) (Some (raceError timeoutMs out))
             (fst (onFailure attempt retries (raceError timeoutMs out) w1))
             (tr @ Invoked # snd (onFailure attempt retries (raceError timeoutMs out) w1))"
  by (subst safeExecuteLoop.simps) (use assms in \<open>auto simp: Let_def split_beta\<close>)

lemma safeExecuteLoop_always_rejects:
  assumes "\<forall>w. \<exists>e w'. fn w = (Rejects e, w')"
  shows "\<exists>errs w' tr'.
           safeExecuteLoop fn timeoutMs retries attempt lastError w tr
             = (Inl (exhaustedError (if errs = [] then lastError else Some (last errs))), w', tr')
           \<and> length errs = nat (retries - attempt)
           \<and> (\<forall>e \<in> set errs. \<exists>v v'. fn v = (Rejects e, v'))
           \<and> invocations tr' = invocations tr + length errs
           \<and> observedErrors tr' = observedErrors tr @ errs"
proof (induction "nat (retries - attempt)" arbitrary: attempt lastError w tr)
  case 0
  then have "\<not> attempt < retries" by simp
  then have "safeExecuteLoop fn timeoutMs retries attempt lastError w tr
             = (Inl (exhaustedError lastError), w, tr)"
    by (rule safeExecuteLoop_stop)
  then show ?case using 0 by (intro exI [of _ "[]"]) simp
next
  case (Suc n)
  then have lt: "attempt < retries" by simp
  obtain e w1 where f: "fn w = (Rejects e, w1)" using assms by blast
  let ?w2 = "fst (onFailure attempt retries e w1)"
  let ?tr = "tr @ Invoked # snd (onFailure attempt retries e w1)"
  have step: "safeExecuteLoop fn timeoutMs retries attempt lastError w tr
              = safeExecuteLoop fn timeoutMs retries (attempt + 1) (Some e) ?w2 ?tr"
    using safeExecuteLoop_fails [where fn = fn and w = w and out = "Rejects e" and e = e
        and ?w1.0 = w1 and attempt = attempt and retries = retries and timeoutMs = timeoutMs
        and lastError = lastError and tr = tr] lt f
    by (simp add: raceError_def)
  have n: "n = nat (retries - (attempt + 1))" using Suc(2) by simp
  from Suc(1) [OF n, of "Some e" ?w2 ?tr]
  obtain errs w' tr' where IH:
    "safeExecuteLoop fn timeoutMs retries (attempt + 1) (Some e) ?w2 ?tr
       = (Inl (exhaustedError (if errs = [] then Some e else Some (last errs))), w', tr')"
    "length errs = nat (retries - (attempt + 1))"
    "\<forall>x \<in> set errs. \<exists>v v'. fn v = (Rejects x, v')"
    "invocations tr' = invocations ?tr + length errs"
    "observedErrors tr' = observedErrors ?tr @ errs"
    by blast
  have tr: "invocations ?tr = invocations tr + 1" "observedErrors ?tr = observedErrors tr @ [e]"
    using onFailure_trace [of attempt retries e w1]
    by (simp_all add: invocations_append observedErrors_append)
  have last: "(if errs = [] then Some e else Some (last errs)) = Some (last (e # errs))" by simp
  have len: "length (e # errs) = nat (retries - attempt)" using IH(2) lt by simp
  have src: "\<forall>x \<in> set (e # errs). \<exists>v v'. fn v = (Rejects x, v')" using IH(3) f by auto
  show ?case
    apply (rule exI [of _ "e # errs"])
    apply (rule exI [of _ w'])
    apply (rule exI [of _ tr'])
    using step IH(1,4,5) tr last len src by simp
qed

text \<open>
  Claim C1, as amended. For an operation that throws on every invocation,
  \<open>safeExecute\<close> with \<open>retries = 3\<close> invokes it exactly 3 times and observes 3
  errors, each one thrown by the operation; it then fails with the last observed error
  itself, rethrown as it is, when that value is truthy, and with a new \<open>Error\<close> (all
  attempts failed) when the last thrown value is falsy.
\<close>

theorem safeExecute_exhausts_retries:
  assumes "\<forall>w. \<exists>e w'. fn w = (Rejects e, w')"
  shows "\<exists>errs w' tr.
           safeExecute fn timeoutMs 3 w
             = (Inl (if truthy (last errs) then last errs else ErrorObject allAttemptsFailed), w', tr)
           \<and> invocations tr = 3
           \<and> observedErrors tr = errs \<and> length errs = 3
           \<and> (\<forall>e \<in> set errs. \<exists>v v'. fn v = (Rejects e, v'))"
proof -
  from safeExecuteLoop_always_rejects [OF assms, of timeoutMs 3 0 None w "[]"]
  obtain errs w' tr where r:
    "safeExecuteLoop fn timeoutMs 3 0 None w []
       = (Inl (exhaustedError (if errs = [] then None else Some (last errs))), w', tr)"
    "length errs = 3" "\<forall>e \<in> set errs. \<exists>v v'. fn v = (Rejects e, v')"
    "invocations tr = length errs" "observedErrors tr = errs"
    by auto
  have "errs \<noteq> []" using r(2) by auto
  then have "exhaustedError (if errs = [] then None else Some (last errs))
             = (if truthy (last errs) then last errs else ErrorObject allAttemptsFailed)"
    by (simp add: exhaustedError_def)
  then show ?thesis using r unfolding safeExecute_def by auto
qed

theorem safeExecute_exhausts_retries_witness:
  "(\<exists>errs w' tr.
      safeExecute (\<lambda>w. (Rejects (ErrorObject (ascii ''boom'')) :: unit outcome, w)) 30000 3 initialWorld
        = (Inl (if truthy (last errs) then last errs else ErrorObject allAttemptsFailed), w', tr)
      \<and> invocations tr = 3 \<and> observedErrors tr = errs \<and> length errs = 3)
   \<and> safeExecute (\<lambda>w. (Rejects (ErrorObject (ascii ''boom'')) :: unit outcome, w)) 30000 3 initialWorld
       = (Inl (ErrorObject (ascii ''boom'')), initialWorld,
          [Invoked, AttemptFailed 1 3 (ErrorObject (ascii ''boom'')), Backoff 1000,
           Invoked, AttemptFailed 2 3 (ErrorObject (ascii ''boom'')), Backoff 2000,
           Invoked, AttemptFailed 3 3 (ErrorObject (ascii ''boom''))])"
proof -
  let ?fn = "\<lambda>w. (Rejects (ErrorObject (ascii ''boom'')) :: unit outcome, w)"
  have h: "\<forall>w. \<exists>e w'. ?fn w = (Rejects e, w')" by simp
  have run: "safeExecute ?fn 30000 3 initialWorld
       = (Inl (ErrorObject (ascii ''boom'')), initialWorld,
          [Invoked, AttemptFailed 1 3 (ErrorObject (ascii ''boom'')), Backoff 1000,
           Invoked, AttemptFailed 2 3 (ErrorObject (ascii ''boom'')), Backoff 2000,
           Invoked, AttemptFailed 3 3 (ErrorObject (ascii ''boom''))])"
    by (simp add: safeExecute_def safeExecuteLoop.simps raceError_def onFailure_def
        exhaustedError_def ascii_def timeoutWord_def Let_def)
  from safeExecute_exhausts_retries [OF h, of 30000 initialWorld] run
  show ?thesis by blast
qed


text \<open>
  Claim C1 as stated fails for an operation that throws a falsy value (as
  \<open>Promise.reject()\<close> without a reason does): the three observed errors are that value,
  and the failure carries a new \<open>Error\<close> instead of it.
\<close>

theorem safeExecute_falsy_error_counterexample:
  "safeExecute (\<lambda>w. (Rejects (FalsyValue 0) :: unit outcome, w)) 30000 3 initialWorld
     = (Inl (ErrorObject allAttemptsFailed), initialWorld,
        [Invoked, AttemptFailed 1 3 (FalsyValue 0), Backoff 1000,
         Invoked, AttemptFailed 2 3 (FalsyValue 0), Backoff 2000,
         Invoked, AttemptFailed 3 3 (FalsyValue 0)])
   \<and> last (observedErrors
        (snd (snd (safeExecute (\<lambda>w. (Rejects (FalsyValue 0) :: unit outcome, w)) 30000 3 initialWorld))))
       = FalsyValue 0
   \<and> fst (safeExecute (\<lambda>w. (Rejects (FalsyValue 0) :: unit outcome, w)) 30000 3 initialWorld)
       \<noteq> Inl (FalsyValue 0)"
  by (simp add: safeExecute_def safeExecuteLoop.simps raceError_def onFailure_def
      exhaustedError_def Let_def)

lemma startsWith_append: "startsWith (p @ s) p"
  by (induction p) simp_all

lemma timeout_rejection_classified: "isTimeoutError (ErrorObject (timeoutMessage timeoutMs))"
  by (simp add: timeoutMessage_def timeoutWord_def)

lemma timeoutCleanup_snapshot: "lastSnapshot (fst (timeoutCleanup w)) = None"
  by (simp add: timeoutCleanup_def split: option.split)

lemma timeoutCleanup_closed:
  assumes "\<forall>b. globalBrowser w = Some b \<longrightarrow> closeThrows w b = None"
    and "globalBrowser w = None \<longrightarrow> globalPage w = None"
  shows "globalBrowser (fst (timeoutCleanup w)) = None
    \<and> globalPage (fst (timeoutCleanup w)) = None
    \<and> lastSnapshot (fst (timeoutCleanup w)) = None"
  using assms by (auto simp: timeoutCleanup_def split: option.split)

lemma timeoutCleanup_close_throws:
  assumes "globalBrowser w = Some b" and "closeThrows w b = Some err"
  shows "fst (timeoutCleanup w) = w\<lparr>lastSnapshot := None\<rparr>"
  using assms by (simp add: timeoutCleanup_def)

lemma onFailure_timeout_world:
  assumes "isTimeoutError e"
  shows "fst (onFailure attempt retries e w) = fst (timeoutCleanup w)"
  using assms by (simp add: onFailure_def Let_def split_beta)

lemma onFailure_other_world:
  assumes "\<not> isTimeoutError e"
  shows "fst (onFailure attempt retries e w) = w"
  using assms by (simp add: onFailure_def Let_def split_beta)

lemma onFailure_wedged:
  assumes "isTimeoutError e" and "globalBrowser w = Some b" and "closeThrows w b = Some err"
  shows "onFailure attempt retries e w
         = (w\<lparr>lastSnapshot := None\<rparr>,
            AttemptFailed (attempt + 1) retries e # [CleanupStarted, CloseFailed b err]
              @ (if attempt < retries - 1 then [Backoff (1000 * (attempt + 1))] else []))"
  using assms by (simp add: onFailure_def timeoutCleanup_def Let_def)

text \<open>
  Claim C2. After a timeout-classified failure the browser handle, the page handle and the
  cached snapshot are meant to be \<open>null\<close>. The handles are set to \<open>null\<close> inside the
  \<open>try\<close>, after \<open>close()\<close>: when \<open>close()\<close> of the current browser throws, the
  \<open>catch\<close> only logs, and after the failure of an operation that timed out on all three
  attempts the two handles still hold the browser and the page; only the snapshot is
  reset.
\<close>

theorem safeExecute_timeout_close_throws:
  "safeExecute (\<lambda>w. (TimesOut :: unit outcome, w)) 30000 3 wedgedWorld
     = (Inl (ErrorObject (timeoutMessage 30000)), wedgedWorld\<lparr>lastSnapshot := None\<rparr>,
        [Invoked, AttemptFailed 1 3 (ErrorObject (timeoutMessage 30000)), CleanupStarted,
         CloseFailed 0 (ErrorObject (ascii ''Target closed'')), Backoff 1000,
         Invoked, AttemptFailed 2 3 (ErrorObject (timeoutMessage 30000)), CleanupStarted,
         CloseFailed 0 (ErrorObject (ascii ''Target closed'')), Backoff 2000,
         Invoked, AttemptFailed 3 3 (ErrorObject (timeoutMessage 30000)), CleanupStarted,
         CloseFailed 0 (ErrorObject (ascii ''Target closed''))])
   \<and> isTimeoutError (ErrorObject (timeoutMessage 30000))
   \<and> globalBrowser (wedgedWorld\<lparr>lastSnapshot := None\<rparr>) = Some 0
   \<and> globalPage (wedgedWorld\<lparr>lastSnapshot := None\<rparr>) = Some 1
   \<and> lastSnapshot (wedgedWorld\<lparr>lastSnapshot := None\<rparr>) = None"
proof -
  let ?e = "ErrorObject (timeoutMessage 30000)"
  let ?err = "ErrorObject (ascii ''Target closed'')"
  let ?w = "wedgedWorld\<lparr>lastSnapshot := None\<rparr>"
  have c: "isTimeoutError ?e" by (rule timeout_rejection_classified)
  have b: "globalBrowser wedgedWorld = Some 0" "globalBrowser ?w = Some 0"
    and t: "closeThrows wedgedWorld 0 = Some ?err" "closeThrows ?w 0 = Some ?err"
    and p: "globalPage ?w = Some 1"
    by (simp_all add: wedgedWorld_def)
  have f0: "onFailure 0 3 ?e wedgedWorld
            = (?w, [AttemptFailed 1 3 ?e, CleanupStarted, CloseFailed 0 ?err, Backoff 1000])"
    using onFailure_wedged [OF c b(1) t(1), of 0 3] by simp
  have f1: "onFailure 1 3 ?e ?w
            = (?w, [AttemptFailed 2 3 ?e, CleanupStarted, CloseFailed 0 ?err, Backoff 2000])"
    using onFailure_wedged [OF c b(2) t(2), of 1 3] by simp
  have f2: "onFailure 2 3 ?e ?w
            = (?w, [AttemptFailed 3 3 ?e, CleanupStarted, CloseFailed 0 ?err])"
    using onFailure_wedged [OF c b(2) t(2), of 2 3] by simp
  have run: "safeExecute (\<lambda>w. (TimesOut :: unit outcome, w)) 30000 3 wedgedWorld
     = (Inl ?e, ?w,
        [Invoked, AttemptFailed 1 3 ?e, CleanupStarted, CloseFailed 0 ?err, Backoff 1000,
         Invoked, AttemptFailed 2 3 ?e, CleanupStarted, CloseFailed 0 ?err, Backoff 2000,
         Invoked, AttemptFailed 3 3 ?e, CleanupStarted, CloseFailed 0 ?err])"
    unfolding safeExecute_def
    apply (subst safeExecuteLoop.simps, simp add: raceError_def f0 Let_def del: isTimeoutError.simps)
    apply (subst safeExecuteLoop.simps, simp add: raceError_def f1 Let_def del: isTimeoutError.simps)
    apply (subst safeExecuteLoop.simps, simp add: raceError_def f2 Let_def del: isTimeoutError.simps)
    apply (subst safeExecuteLoop.simps, simp add: exhaustedError_def Let_def)
    done
  show ?thesis using run c b(2) p by simp
qed

text \<open>
  When every attempt times out and \<open>close()\<close> does not throw, the teardown is complete:
  the failure is the time-out error and both handles and the snapshot are \<open>null\<close>.
\<close>

lemma safeExecuteLoop_always_times_out:
  assumes "\<forall>w. \<exists>w'. fn w = (TimesOut, w')
              \<and> (\<forall>b. globalBrowser w' = Some b \<longrightarrow> closeThrows w' b = None)
              \<and> (globalBrowser w' = None \<longrightarrow> globalPage w' = None)"
    and "attempt < retries"
  shows "\<exists>w' tr'. safeExecuteLoop fn timeoutMs retries attempt lastError w tr
                    = (Inl (ErrorObject (timeoutMessage timeoutMs)), w', tr')
           \<and> globalBrowser w' = None \<and> globalPage w' = None \<and> lastSnapshot w' = None"
  using assms(2)
proof (induction "nat (retries - attempt)" arbitrary: attempt lastError w tr)
  case 0
  then show ?case by simp
next
  case (Suc n)
  let ?e = "ErrorObject (timeoutMessage timeoutMs)"
  from assms(1) have "\<exists>w'. fn w = (TimesOut, w')
              \<and> (\<forall>b. globalBrowser w' = Some b \<longrightarrow> closeThrows w' b = None)
              \<and> (globalBrowser w' = None \<longrightarrow> globalPage w' = None)" by (rule spec)
  then obtain w1 where f: "fn w = (TimesOut, w1)"
    and ok: "\<forall>b. globalBrowser w1 = Some b \<longrightarrow> closeThrows w1 b = None"
    and inv: "globalBrowser w1 = None \<longrightarrow> globalPage w1 = None"
    by (elim exE conjE)
  let ?w2 = "fst (onFailure attempt retries ?e w1)"
  let ?tr = "tr @ Invoked # snd (onFailure attempt retries ?e w1)"
  have step: "safeExecuteLoop fn timeoutMs retries attempt lastError w tr
              = safeExecuteLoop fn timeoutMs retries (attempt + 1) (Some ?e) ?w2 ?tr"
    using safeExecuteLoop_fails [where fn = fn and w = w and out = TimesOut
        and ?w1.0 = w1 and attempt = attempt and retries = retries and timeoutMs = timeoutMs
        and lastError = lastError and tr = tr] Suc(3) f
    by (simp add: raceError_def)
  have "?w2 = fst (timeoutCleanup w1)"
    by (rule onFailure_timeout_world) (rule timeout_rejection_classified)
  then have clean: "globalBrowser ?w2 = None \<and> globalPage ?w2 = None \<and> lastSnapshot ?w2 = None"
    using timeoutCleanup_closed [OF ok inv] by simp
  show ?case
  proof (cases "attempt + 1 < retries")
    case True
    have n: "n = nat (retries - (attempt + 1))" using Suc(2) by simp
    from Suc(1) [OF n True, of "Some ?e" ?w2 ?tr] step show ?thesis by simp
  next
    case False
    then have "safeExecuteLoop fn timeoutMs retries (attempt + 1) (Some ?e) ?w2 ?tr
               = (Inl (exhaustedError (Some ?e)), ?w2, ?tr)"
      by (rule safeExecuteLoop_stop)
    then show ?thesis using step clean by (simp add: exhaustedError_def)
  qed
qed

lemma safeExecute_timeout_teardown:
  assumes "\<forall>w. \<exists>w'. fn w = (TimesOut, w')
              \<and> (\<forall>b. globalBrowser w' = Some b \<longrightarrow> closeThrows w' b = None)
              \<and> (globalBrowser w' = None \<longrightarrow> globalPage w' = None)"
    and "0 < retries"
  shows "\<exists>w' tr'. safeExecute fn timeoutMs retries w
                    = (Inl (ErrorObject (timeoutMessage timeoutMs)), w', tr')
           \<and> globalBrowser w' = None \<and> globalPage w' = None \<and> lastSnapshot w' = None"
  unfolding safeExecute_def using assms by (rule safeExecuteLoop_always_times_out)


section \<open>Properties of the session manager\<close>

lemma selectProfile_world:
  assumes "selectProfile useRandomProfile r w = (profile, w1)"
  shows "globalBrowser w1 = globalBrowser w \<and> globalPage w1 = globalPage w
    \<and> lastSnapshot w1 = lastSnapshot w \<and> openBrowsers w1 = openBrowsers w
    \<and> nextHandle w1 = nextHandle w \<and> closeThrows w1 = closeThrows w"
  using assms by (auto simp: selectProfile_def Let_def split: if_splits)

lemma closeExisting_success:
  assumes "closeExisting w = Inr w2"
  shows "globalBrowser w2 = None
    \<and> openBrowsers w2 = openBrowsers w - set_option (globalBrowser w)
    \<and> (\<forall>old. globalBrowser w = Some old \<longrightarrow> closeThrows w old = None)
    \<and> nextHandle w2 = nextHandle w \<and> closeThrows w2 = closeThrows w
    \<and> lastSnapshot w2 = lastSnapshot w"
  using assms by (auto simp: closeExisting_def split: option.splits)

lemma launchSession_success:
  assumes "launchSession drv headless profile w = (Inr (b, p), w')"
  shows "b = nextHandle w \<and> p = nextHandle w + 1 \<and> nextHandle w' = nextHandle w + 2
    \<and> globalBrowser w' = Some b \<and> globalPage w' = Some p
    \<and> openBrowsers w' = insert b (openBrowsers w)
    \<and> closeThrows w' = closeThrows w \<and> lastSnapshot w' = lastSnapshot w"
proof (cases profile)
  case None
  then show ?thesis using assms by (simp add: launchSession_def)
next
  case (Some prof)
  show ?thesis
  proof (cases "launchThrows drv")
    case (Some e)
    then show ?thesis using assms \<open>profile = Some prof\<close> by (simp add: launchSession_def)
  next
    case None
    note l = this
    show ?thesis
    proof (cases "newPageThrows drv")
      case (Some e)
      then show ?thesis using assms \<open>profile = Some prof\<close> l
        by (simp add: launchSession_def Let_def)
    next
      case None
      note n = this
      show ?thesis
      proof (cases "firstThrown [setViewportSizeThrows drv, addInitScriptThrows drv,
                                   setExtraHTTPHeadersThrows drv]")
        case (Some e)
        then show ?thesis using assms \<open>profile = Some prof\<close> l n
          by (simp add: launchSession_def Let_def)
      next
        case None
        then show ?thesis using assms \<open>profile = Some prof\<close> l n
          by (auto simp: launchSession_def Let_def)
      qed
    qed
  qed
qed

lemma launchSession_single_session:
  assumes "openBrowsers w = {}" and "globalBrowser w = None"
  shows "openBrowsers (snd (launchSession drv headless profile w))
         \<subseteq> set_option (globalBrowser (snd (launchSession drv headless profile w)))"
  using assms
  by (simp add: launchSession_def Let_def split: option.split)

lemma acquire_success:
  assumes "getOrCreateBrowserAndPage drv headless useRandomProfile r w = (Inr (b, p), w')"
  shows "b = nextHandle w \<and> p = nextHandle w + 1 \<and> nextHandle w' = nextHandle w + 2
    \<and> globalBrowser w' = Some b \<and> globalPage w' = Some p
    \<and> openBrowsers w' = insert b (openBrowsers w - set_option (globalBrowser w))
    \<and> (\<forall>old. globalBrowser w = Some old \<longrightarrow> closeThrows w old = None)
    \<and> closeThrows w' = closeThrows w \<and> lastSnapshot w' = lastSnapshot w"
proof -
  obtain profile w1 where sp: "selectProfile useRandomProfile r w = (profile, w1)"
    by (cases "selectProfile useRandomProfile r w")
  note s1 = selectProfile_world [OF sp]
  from assms sp obtain w2 where ce: "closeExisting w1 = Inr w2"
    and ls: "launchSession drv headless profile w2 = (Inr (b, p), w')"
    by (cases "closeExisting w1") (simp_all add: getOrCreateBrowserAndPage_def)
  note s2 = closeExisting_success [OF ce]
  note s3 = launchSession_success [OF ls]
  show ?thesis using s1 s2 s3 by simp
qed

lemma acquire_single_session:
  assumes "openBrowsers w \<subseteq> set_option (globalBrowser w)"
  shows "openBrowsers (snd (getOrCreateBrowserAndPage drv headless useRandomProfile r w))
         \<subseteq> set_option (globalBrowser (snd (getOrCreateBrowserAndPage drv headless useRandomProfile r w)))"
proof -
  obtain profile w1 where sp: "selectProfile useRandomProfile r w = (profile, w1)"
    by (cases "selectProfile useRandomProfile r w")
  note s1 = selectProfile_world [OF sp]
  show ?thesis
  proof (cases "closeExisting w1")
    case (Inl e)
    then show ?thesis using sp s1 assms by (simp add: getOrCreateBrowserAndPage_def)
  next
    case (Inr w2)
    note s2 = closeExisting_success [OF Inr]
    have "openBrowsers w2 = {}" "globalBrowser w2 = None" using s1 s2 assms by auto
    then show ?thesis
      using sp Inr launchSession_single_session [of w2 drv headless profile]
      by (simp add: getOrCreateBrowserAndPage_def)
  qed
qed

text \<open>
  Claim C4. For two consecutive calls of \<open>getOrCreateBrowserAndPage\<close> that both
  return, the browser of the first call is open after the first call and closed when the
  second returns; the two browser handles differ and so do the two page handles; the
  globals hold the handles of the latest call; and when at most the current browser was
  open before the first call, exactly one browser is open after each call.
\<close>

theorem acquire_twice_closes_first:
  assumes "getOrCreateBrowserAndPage drv1 headless1 random1 r1 w0 = (Inr (b1, p1), w1)"
    and "getOrCreateBrowserAndPage drv2 headless2 random2 r2 w1 = (Inr (b2, p2), w2)"
  shows "b1 \<in> openBrowsers w1 \<and> b1 \<notin> openBrowsers w2 \<and> b2 \<in> openBrowsers w2
    \<and> b1 \<noteq> b2 \<and> p1 \<noteq> p2
    \<and> globalBrowser w1 = Some b1 \<and> globalPage w1 = Some p1
    \<and> globalBrowser w2 = Some b2 \<and> globalPage w2 = Some p2
    \<and> (openBrowsers w0 \<subseteq> set_option (globalBrowser w0)
          \<longrightarrow> openBrowsers w1 = {b1} \<and> openBrowsers w2 = {b2})"
proof -
  note s1 = acquire_success [OF assms(1)]
  note s2 = acquire_success [OF assms(2)]
  have ne: "b1 \<noteq> b2" "p1 \<noteq> p2" using s1 s2 by simp_all
  have o2: "openBrowsers w2 = insert b2 (openBrowsers w1 - {b1})" using s1 s2 by simp
  have o1: "openBrowsers w1 = insert b1 (openBrowsers w0 - set_option (globalBrowser w0))"
    using s1 by simp
  have single: "openBrowsers w0 \<subseteq> set_option (globalBrowser w0)
          \<longrightarrow> openBrowsers w1 = {b1} \<and> openBrowsers w2 = {b2}"
    using o1 o2 by auto
  show ?thesis using s1 s2 ne o1 o2 single by auto
qed

theorem acquire_twice_closes_first_witness:
  "getOrCreateBrowserAndPage
     \<lparr>launchThrows = None, newPageThrows = None, setViewportSizeThrows = None,
      addInitScriptThrows = None, setExtraHTTPHeadersThrows = None\<rparr> True True 0 initialWorld
     = (Inr (0, 1), initialWorld\<lparr>globalBrowser := Some 0, globalPage := Some 1,
                                 openBrowsers := {0}, nextHandle := 2\<rparr>)
   \<and> getOrCreateBrowserAndPage
     \<lparr>launchThrows = None, newPageThrows = None, setViewportSizeThrows = None,
      addInitScriptThrows = None, setExtraHTTPHeadersThrows = None\<rparr> True True (1 / 2)
       (initialWorld\<lparr>globalBrowser := Some 0, globalPage := Some 1,
                     openBrowsers := {0}, nextHandle := 2\<rparr>)
     = (Inr (2, 3), initialWorld\<lparr>globalBrowser := Some 2, globalPage := Some 3,
                                 openBrowsers := {2}, nextHandle := 4\<rparr>)
   \<and> (0::nat) \<noteq> 2
   \<and> 0 \<notin> openBrowsers (initialWorld\<lparr>globalBrowser := Some 2, globalPage := Some 3,
                                       openBrowsers := {2}, nextHandle := 4\<rparr>)"
proof -
  let ?drv = "\<lparr>launchThrows = None, newPageThrows = None, setViewportSizeThrows = None,
      addInitScriptThrows = None, setExtraHTTPHeadersThrows = None\<rparr>"
  let ?w1 = "initialWorld\<lparr>globalBrowser := Some 0, globalPage := Some 1,
                                 openBrowsers := {0}, nextHandle := 2\<rparr>"
  let ?w2 = "initialWorld\<lparr>globalBrowser := Some 2, globalPage := Some 3,
                                 openBrowsers := {2}, nextHandle := 4\<rparr>"
  have p0: "getRandomProfile 0 = Some (browserProfiles ! 0)"
    and p2: "getRandomProfile (1 / 2) = Some (browserProfiles ! 2)"
    by (simp_all add: getRandomProfile_def length_browserProfiles js_index_def)
  have a1: "getOrCreateBrowserAndPage ?drv True True 0 initialWorld = (Inr (0, 1), ?w1)"
    by (simp add: getOrCreateBrowserAndPage_def selectProfile_def closeExisting_def
        launchSession_def p0 Let_def initialWorld_def)
  have a2: "getOrCreateBrowserAndPage ?drv True True (1 / 2) ?w1 = (Inr (2, 3), ?w2)"
    by (simp add: getOrCreateBrowserAndPage_def selectProfile_def closeExisting_def
        launchSession_def p2 Let_def initialWorld_def)
  from acquire_twice_closes_first [OF a1 a2] a1 a2 show ?thesis by simp
qed

end
